theory Spec2Isabelle
  imports Main "HOL-Library.AList"
begin

section \<open>JavaScript strings and values\<close>

text \<open>
  A JavaScript string is modelled as a \<^typ>\<open>string\<close>, one \<^typ>\<open>char\<close> per code unit
  (code units 0 to 255). Case conversion acts on the ASCII letters. White space is what
  \<^verbatim>\<open>\s\<close> and \<^verbatim>\<open>trim\<close> recognise in that range: tab, line feed, vertical tab, form feed,
  carriage return, space and no-break space.
\<close>

definition is_upper :: "char \<Rightarrow> bool" where
  "is_upper c \<longleftrightarrow> 65 \<le> (of_char c :: nat) \<and> (of_char c :: nat) \<le> 90"

definition is_lower :: "char \<Rightarrow> bool" where
  "is_lower c \<longleftrightarrow> 97 \<le> (of_char c :: nat) \<and> (of_char c :: nat) \<le> 122"

definition is_digit :: "char \<Rightarrow> bool" where
  "is_digit c \<longleftrightarrow> 48 \<le> (of_char c :: nat) \<and> (of_char c :: nat) \<le> 57"

definition is_word :: "char \<Rightarrow> bool" where
  \<comment> \<open>the class \<^verbatim>\<open>\w\<close>\<close>
  "is_word c \<longleftrightarrow> is_upper c \<or> is_lower c \<or> is_digit c \<or> c = CHR ''_''"

definition is_space :: "char \<Rightarrow> bool" where
  \<comment> \<open>the class \<^verbatim>\<open>\s\<close>\<close>
  "is_space c \<longleftrightarrow> (of_char c :: nat) \<in> set [9, 10, 11, 12, 13, 32, 160]"

definition toLowerChar :: "char \<Rightarrow> char" where
  "toLowerChar c = (if is_upper c then char_of (of_char c + (32::nat)) else c)"

definition toUpperChar :: "char \<Rightarrow> char" where
  "toUpperChar c = (if is_lower c then char_of (of_char c - (32::nat)) else c)"

definition toLowerCase :: "string \<Rightarrow> string" where
  "toLowerCase s = map toLowerChar s"

definition toUpperCase :: "string \<Rightarrow> string" where
  "toUpperCase s = map toUpperChar s"

definition trim :: "string \<Rightarrow> string" where
  "trim s = rev (dropWhile is_space (rev (dropWhile is_space s)))"

definition startsWith :: "string \<Rightarrow> string \<Rightarrow> bool" where
  "startsWith s t \<longleftrightarrow> take (length t) s = t"

definition endsWith :: "string \<Rightarrow> string \<Rightarrow> bool" where
  "endsWith s t \<longleftrightarrow> startsWith (rev s) (rev t)"

fun includes_str :: "string \<Rightarrow> string \<Rightarrow> bool" where
  "includes_str [] t = (t = [])"
| "includes_str (c # cs) t = (startsWith (c # cs) t \<or> includes_str cs t)"

text \<open>\<^verbatim>\<open>s.split(' ')\<close>: one piece per separator occurrence plus one; never the empty array.\<close>

fun split_on :: "char \<Rightarrow> string \<Rightarrow> string list" where
  "split_on d [] = [[]]"
| "split_on d (c # cs) =
     (if c = d then [] # split_on d cs
      else (case split_on d cs of [] \<Rightarrow> [[c]] | p # ps \<Rightarrow> (c # p) # ps))"

text \<open>\<^verbatim>\<open>s.split(/\s+/)\<close>: the separator is a maximal run of white space.\<close>

function split_ws :: "string \<Rightarrow> string list" where
  "split_ws [] = [[]]"
| "split_ws (c # cs) =
     (if is_space c then [] # split_ws (dropWhile is_space cs)
      else (case split_ws cs of [] \<Rightarrow> [[c]] | p # ps \<Rightarrow> (c # p) # ps))"
  by pat_completeness auto
termination
  by (relation "measure length") (auto intro: le_imp_less_Suc length_dropWhile_le)

text \<open>\<^verbatim>\<open>xs[i]\<close> on an array: \<open>None\<close> stands for \<^verbatim>\<open>undefined\<close>.\<close>

definition at_index :: "'a list \<Rightarrow> nat \<Rightarrow> 'a option" where
  "at_index xs i = (if i < length xs then Some (xs ! i) else None)"

text \<open>
  Cell values. Numbers are modelled as integers, printed in decimal: the numbers the
  functions below produce are counts, and the numeric cells they inspect are only tested
  for being zero or printed.
\<close>

datatype jsval = VUndefined | VNull | VBool bool | VNum int | VStr string

definition digit_char :: "nat \<Rightarrow> char" where
  "digit_char n = char_of (48 + n)"

fun digits_of_nat :: "nat \<Rightarrow> string" where
  "digits_of_nat n =
     (if n < 10 then [digit_char n] else digits_of_nat (n div 10) @ [digit_char (n mod 10)])"

definition number_to_string :: "int \<Rightarrow> string" where
  "number_to_string n =
     (if n < 0 then CHR ''-'' # digits_of_nat (nat (- n)) else digits_of_nat (nat n))"

fun String :: "jsval \<Rightarrow> string" where
  "String VUndefined = ''undefined''"
| "String VNull = ''null''"
| "String (VBool b) = (if b then ''true'' else ''false'')"
| "String (VNum n) = number_to_string n"
| "String (VStr s) = s"

fun truthy :: "jsval \<Rightarrow> bool" where
  "truthy VUndefined = False"
| "truthy VNull = False"
| "truthy (VBool b) = b"
| "truthy (VNum n) = (n \<noteq> 0)"
| "truthy (VStr s) = (s \<noteq> [])"

text \<open>\<^verbatim>\<open>v || ''\<close>\<close>

definition or_empty :: "jsval \<Rightarrow> jsval" where
  "or_empty v = (if truthy v then v else VStr [])"

text \<open>
  A row is a plain object: its own properties in creation order. Reading a property that
  the row does not have gives \<^verbatim>\<open>undefined\<close>; \<^verbatim>\<open>{...row, [f]: v}\<close> keeps the position of an
  existing property and appends a new one. Two things are outside the model: reading
  a row under a name that it does not have but every plain object inherits (such as
  \<^verbatim>\<open>constructor\<close>), and field names that look like array indices, which an object lists
  first.
\<close>

type_synonym row = "(string \<times> jsval) list"

definition get_field :: "row \<Rightarrow> string \<Rightarrow> jsval" where
  "get_field r f = (case map_of r f of None \<Rightarrow> VUndefined | Some v \<Rightarrow> v)"

definition set_field :: "row \<Rightarrow> string \<Rightarrow> jsval \<Rightarrow> row" where
  "set_field r f v = AList.update f v r"

definition keys :: "row \<Rightarrow> string list" where
  "keys r = map fst r"

section \<open>The data modifier (NaturalLanguageDataModifier.tsx)\<close>

datatype operation = Update | Delete | Add | Replace | Transform

datatype status = Pending | Applied | Failed

record DataModification =
  mod_id :: string
  command :: string
  operation :: operation
  field :: string
  condition :: string
  newValue :: string
  affectedRows :: "int list"
  status :: status
  timestamp :: int

datatype exn = TypeError | SyntaxError

text \<open>
  Two services of the JavaScript runtime are parameters of the model: the comparison of
  two \<^verbatim>\<open>parseFloat\<close> results (floating point), and a \<^verbatim>\<open>RegExp\<close> built from a non-empty
  pattern with flags \<^verbatim>\<open>gi\<close> and used by \<^verbatim>\<open>String.prototype.replace\<close> (\<open>None\<close>: the
  constructor throws a \<^verbatim>\<open>SyntaxError\<close>). Every theorem below holds for all of them.
\<close>

record runtime =
  parseFloat_gt :: "string \<Rightarrow> string \<Rightarrow> bool"
  parseFloat_lt :: "string \<Rightarrow> string \<Rightarrow> bool"
  regexp_replace :: "string \<Rightarrow> string \<Rightarrow> string \<Rightarrow> string option"

subsection \<open>evaluateCondition\<close>

text \<open>The text the comparisons read: \<^verbatim>\<open>String(row[field] || '').toLowerCase()\<close>.\<close>

definition fieldValue_of :: "row \<Rightarrow> string \<Rightarrow> string" where
  "fieldValue_of r f = toLowerCase (String (or_empty (get_field r f)))"

definition evaluateCondition :: "runtime \<Rightarrow> row \<Rightarrow> string \<Rightarrow> exn + bool" where
  "evaluateCondition rt r cond =
     (if cond = [] then Inr True
      else
        let parts = split_on (CHR '' '') cond;
            fieldValue = fieldValue_of r (case at_index parts 0 of None \<Rightarrow> ''undefined'' | Some f \<Rightarrow> f)
        in case at_index parts 2 of
             None \<Rightarrow> Inl TypeError
           | Some v \<Rightarrow>
               let compareValue = toLowerCase v in
               (case at_index parts 1 of
                  None \<Rightarrow> Inr False
                | Some operator \<Rightarrow>
                    if operator = ''='' then Inr (fieldValue = compareValue)
                    else if operator = ''>'' then Inr (parseFloat_gt rt fieldValue compareValue)
                    else if operator = ''<'' then Inr (parseFloat_lt rt fieldValue compareValue)
                    else if operator = ''contains'' then Inr (includes_str fieldValue compareValue)
                    else if operator = ''starts'' then Inr (startsWith fieldValue compareValue)
                    else if operator = ''ends'' then Inr (endsWith fieldValue compareValue)
                    else Inr False))"

subsection \<open>transformValue\<close>

definition transformValue :: "jsval \<Rightarrow> string \<Rightarrow> jsval" where
  "transformValue v transformType =
     (let stringValue = String v; t = toLowerCase transformType in
      if t = ''uppercase'' then VStr (toUpperCase stringValue)
      else if t = ''lowercase'' then VStr (toLowerCase stringValue)
      else if t = ''capitalize'' then
        VStr (toUpperCase (take 1 stringValue) @ toLowerCase (drop 1 stringValue))
      else if t = ''trim'' then VStr (trim stringValue)
      else if t = ''reverse'' then VStr (rev stringValue)
      else if t = ''length'' then VNum (int (length stringValue))
      else if t = ''wordcount'' then
        VNum (int (length (filter (\<lambda>w. length w > 0) (split_ws stringValue))))
      else v)"

subsection \<open>Replacing with a regular expression that has no pattern\<close>

text \<open>
  \<^verbatim>\<open>new RegExp(undefined, 'gi')\<close> and \<^verbatim>\<open>new RegExp('', 'gi')\<close> are the empty pattern, which
  matches the empty string at every position of the subject, the end included. The
  replacement text is a template: \<^verbatim>\<open>$$\<close> is a dollar sign, \<^verbatim>\<open>$&\<close> the match, \<^verbatim>\<open>$`\<close> the
  text before it, \<^verbatim>\<open>$'\<close> the text after it; the pattern has no group, so every other
  character stands for itself.
\<close>

fun expand_template :: "string \<Rightarrow> string \<Rightarrow> string \<Rightarrow> string \<Rightarrow> string" where
  "expand_template pre matched post [] = []"
| "expand_template pre matched post [c] = [c]"
| "expand_template pre matched post (c # d # cs) =
     (if c = CHR ''$'' \<and> d = CHR ''$'' then CHR ''$'' # expand_template pre matched post cs
      else if c = CHR ''$'' \<and> d = CHR ''&'' then matched @ expand_template pre matched post cs
      else if c = CHR ''$'' \<and> d = CHR 0x60 then pre @ expand_template pre matched post cs
      else if c = CHR ''$'' \<and> d = CHR 0x27 then post @ expand_template pre matched post cs
      else c # expand_template pre matched post (d # cs))"

fun replace_empty_pattern :: "string \<Rightarrow> string \<Rightarrow> string \<Rightarrow> string" where
  "replace_empty_pattern pre [] r = expand_template pre [] [] r"
| "replace_empty_pattern pre (c # cs) r =
     expand_template pre [] (c # cs) r @ c # replace_empty_pattern (pre @ [c]) cs r"

text \<open>\<^verbatim>\<open>s.replace(new RegExp(pattern, 'gi'), r)\<close>, the pattern possibly \<^verbatim>\<open>undefined\<close>.\<close>

definition replace_gi :: "runtime \<Rightarrow> string option \<Rightarrow> string \<Rightarrow> string \<Rightarrow> exn + string" where
  "replace_gi rt pattern s r =
     (case pattern of
        None \<Rightarrow> Inr (replace_empty_pattern [] s r)
      | Some p \<Rightarrow>
          if p = [] then Inr (replace_empty_pattern [] s r)
          else (case regexp_replace rt p s r of None \<Rightarrow> Inl SyntaxError | Some t \<Rightarrow> Inr t))"

subsection \<open>applyModification\<close>

text \<open>
  The test that the \<^verbatim>\<open>update\<close>, \<^verbatim>\<open>delete\<close>, \<^verbatim>\<open>replace\<close> and \<^verbatim>\<open>transform\<close> branches all
  repeat: \<^verbatim>\<open>affectedRows.includes(index + 1) || (condition && evaluateCondition(row, condition))\<close>.
\<close>

definition selected :: "runtime \<Rightarrow> DataModification \<Rightarrow> row \<Rightarrow> nat \<Rightarrow> exn + bool" where
  "selected rt m r index =
     (if int (index + 1) \<in> set (affectedRows m) then Inr True
      else if condition m = [] then Inr False
      else evaluateCondition rt r (condition m))"

text \<open>
  The callbacks of \<^verbatim>\<open>map\<close>: \<open>None\<close> when the callback returns the row object it was given,
  \<open>Some r'\<close> when it returns a new object \<open>r'\<close>.
\<close>

definition update_row :: "runtime \<Rightarrow> DataModification \<Rightarrow> row \<Rightarrow> nat \<Rightarrow> exn + row option" where
  "update_row rt m r index =
     (case selected rt m r index of
        Inl e \<Rightarrow> Inl e
      | Inr b \<Rightarrow> Inr (if b then Some (set_field r (field m) (VStr (newValue m))) else None))"

definition replace_row :: "runtime \<Rightarrow> DataModification \<Rightarrow> row \<Rightarrow> nat \<Rightarrow> exn + row option" where
  "replace_row rt m r index =
     (case selected rt m r index of
        Inl e \<Rightarrow> Inl e
      | Inr b \<Rightarrow>
          if b then
            let oldValue = get_field r (field m) in
            (case replace_gi rt (at_index (split_on (CHR '' '') (condition m)) 2)
                    (String oldValue) (newValue m) of
               Inl e \<Rightarrow> Inl e
             | Inr v \<Rightarrow> Inr (Some (set_field r (field m) (VStr v))))
          else Inr None)"

definition transform_row :: "runtime \<Rightarrow> DataModification \<Rightarrow> row \<Rightarrow> nat \<Rightarrow> exn + row option" where
  "transform_row rt m r index =
     (case selected rt m r index of
        Inl e \<Rightarrow> Inl e
      | Inr b \<Rightarrow>
          Inr (if b then
                 Some (set_field r (field m) (transformValue (get_field r (field m)) (newValue m)))
               else None))"

text \<open>The callback of \<^verbatim>\<open>filter\<close> in the \<^verbatim>\<open>delete\<close> branch: whether the row is kept.\<close>

definition delete_keeps :: "runtime \<Rightarrow> DataModification \<Rightarrow> row \<Rightarrow> nat \<Rightarrow> exn + bool" where
  "delete_keeps rt m r index =
     (case selected rt m r index of Inl e \<Rightarrow> Inl e | Inr b \<Rightarrow> Inr (\<not> b))"

text \<open>
  \<^verbatim>\<open>map\<close> and \<^verbatim>\<open>filter\<close> call the callback on the rows in order, with the index; the first
  exception ends the loop.
\<close>

fun map_rows :: "(row \<Rightarrow> nat \<Rightarrow> exn + row option) \<Rightarrow> row list \<Rightarrow> nat \<Rightarrow> exn + row list" where
  "map_rows f [] index = Inr []"
| "map_rows f (r # rs) index =
     (case f r index of
        Inl e \<Rightarrow> Inl e
      | Inr changed \<Rightarrow>
          (case map_rows f rs (Suc index) of
             Inl e \<Rightarrow> Inl e
           | Inr rs' \<Rightarrow> Inr ((case changed of None \<Rightarrow> r | Some r' \<Rightarrow> r') # rs')))"

fun filter_rows :: "(row \<Rightarrow> nat \<Rightarrow> exn + bool) \<Rightarrow> row list \<Rightarrow> nat \<Rightarrow> exn + row list" where
  "filter_rows f [] index = Inr []"
| "filter_rows f (r # rs) index =
     (case f r index of
        Inl e \<Rightarrow> Inl e
      | Inr keep \<Rightarrow>
          (case filter_rows f rs (Suc index) of
             Inl e \<Rightarrow> Inl e
           | Inr rs' \<Rightarrow> Inr (if keep then r # rs' else rs')))"

text \<open>\<^verbatim>\<open>availableFields\<close>: the keys of the first row, none for an empty table.\<close>

definition availableFields :: "row list \<Rightarrow> string list" where
  "availableFields data = (case data of [] \<Rightarrow> [] | r # _ \<Rightarrow> keys r)"

definition newRow :: "string list \<Rightarrow> DataModification \<Rightarrow> row" where
  "newRow available m =
     foldl (\<lambda>r f. set_field r f (if f = field m then VStr (newValue m) else VStr [])) [] available"

text \<open>The body of the \<^verbatim>\<open>try\<close> block: the table it returns, or the exception it throws.\<close>

definition apply_switch :: "runtime \<Rightarrow> row list \<Rightarrow> DataModification \<Rightarrow> exn + row list" where
  "apply_switch rt data m =
     (case operation m of
        Update \<Rightarrow> map_rows (update_row rt m) data 0
      | Delete \<Rightarrow> filter_rows (delete_keeps rt m) data 0
      | Add \<Rightarrow> Inr (data @ [newRow (availableFields data) m])
      | Replace \<Rightarrow> map_rows (replace_row rt m) data 0
      | Transform \<Rightarrow> map_rows (transform_row rt m) data 0)"

text \<open>
  \<^verbatim>\<open>setModifications(prev => prev.map(mod => mod.id === modification.id ? {...mod, status} : mod))\<close>
\<close>

definition set_status :: "string \<Rightarrow> status \<Rightarrow> DataModification list \<Rightarrow> DataModification list" where
  "set_status i st mods = map (\<lambda>md. if mod_id md = i then md\<lparr>status := st\<rparr> else md) mods"

text \<open>
  \<^verbatim>\<open>applyModification\<close> returns a table and, through \<^verbatim>\<open>setModifications\<close>, updates the list of
  modification records: the model takes the list and returns it with the table.
\<close>

definition applyModification ::
  "runtime \<Rightarrow> row list \<Rightarrow> DataModification list \<Rightarrow> DataModification
     \<Rightarrow> row list \<times> DataModification list" where
  "applyModification rt data mods m =
     (case apply_switch rt data m of
        Inr t \<Rightarrow> (t, mods)
      | Inl e \<Rightarrow> (data, set_status (mod_id m) Failed mods))"

text \<open>
  The caller, \<^verbatim>\<open>applyModificationToData\<close>: it hands the table to \<^verbatim>\<open>onDataChange\<close> and then sets
  the status of the record to \<^verbatim>\<open>applied\<close> (its own \<^verbatim>\<open>catch\<close> is reached only if the host's
  \<^verbatim>\<open>onDataChange\<close> throws, which is not modelled).
\<close>

definition applyModificationToData ::
  "runtime \<Rightarrow> row list \<Rightarrow> DataModification list \<Rightarrow> DataModification
     \<Rightarrow> row list \<times> DataModification list" where
  "applyModificationToData rt data mods m =
     (case applyModification rt data mods m of
        (newData, mods') \<Rightarrow> (newData, set_status (mod_id m) Applied mods'))"

text \<open>
  Closed instances are stated under one fixed runtime. It rejects every non-empty pattern
  and finds no number greater or less than another. The instances below reach no numeric
  comparison, and the only non-empty pattern they reach is \<^verbatim>\<open>(\<close>, an unterminated group,
  for which \<^verbatim>\<open>new RegExp\<close> does throw a \<^verbatim>\<open>SyntaxError\<close>.
\<close>

definition plain_runtime :: runtime where
  "plain_runtime =
     \<lparr>parseFloat_gt = (\<lambda>a b. False), parseFloat_lt = (\<lambda>a b. False),
      regexp_replace = (\<lambda>p s r. None)\<rparr>"

definition make_modification ::
  "operation \<Rightarrow> string \<Rightarrow> string \<Rightarrow> string \<Rightarrow> int list \<Rightarrow> DataModification" where
  \<comment> \<open>the record \<^verbatim>\<open>processCommand\<close> builds, with a fixed id, command text and time\<close>
  "make_modification opr f c v rows =
     \<lparr>mod_id = ''1'', command = [], operation = opr, field = f, condition = c, newValue = v,
      affectedRows = rows, status = Pending, timestamp = 0\<rparr>"

section \<open>The command parser (parseCommand)\<close>

text \<open>
  The regular expressions of \<open>parseCommand\<close> are written out as matchers on the rest of
  the command from a position: a matcher returns what the expression captures when it
  matches there. \<^verbatim>\<open>match\<close> without the \<^verbatim>\<open>g\<close> flag takes the leftmost position with a match.
  The command has been lower-cased before any of them runs, so the \<^verbatim>\<open>i\<close> flag changes
  nothing.
\<close>

fun first_match :: "(string \<Rightarrow> 'a option) \<Rightarrow> string \<Rightarrow> 'a option" where
  "first_match p [] = p []"
| "first_match p (c # cs) = (case p (c # cs) of Some x \<Rightarrow> Some x | None \<Rightarrow> first_match p cs)"

text \<open>The position a greedy \<^verbatim>\<open>.*\<close> leaves for what follows it: the last one that matches.\<close>

fun last_match :: "(string \<Rightarrow> 'a option) \<Rightarrow> string \<Rightarrow> 'a option" where
  "last_match p [] = p []"
| "last_match p (c # cs) = (case last_match p cs of Some x \<Rightarrow> Some x | None \<Rightarrow> p (c # cs))"

definition is_quote :: "char \<Rightarrow> bool" where
  "is_quote c \<longleftrightarrow> c = CHR 0x22 \<or> c = CHR 0x27"

definition is_line_terminator :: "char \<Rightarrow> bool" where
  "is_line_terminator c \<longleftrightarrow> c = CHR 0x0A \<or> c = CHR 0x0D"

text \<open>\<^verbatim>\<open>/to (uppercase|lowercase|capitalize|trim|reverse|length|wordcount)/\<close>\<close>

definition transform_names :: "string list" where
  "transform_names =
     [''uppercase'', ''lowercase'', ''capitalize'', ''trim'', ''reverse'', ''length'', ''wordcount'']"

definition match_to_transform :: "string \<Rightarrow> string option" where
  "match_to_transform s =
     (if startsWith s ''to '' then find (\<lambda>n. startsWith (drop 3 s) n) transform_names else None)"

text \<open>
  \<^verbatim>\<open>/transform.*to (\w+)/\<close>: the dot stops at a line terminator, and the greedy star gives
  the last \<^verbatim>\<open>to \<close> of the line that a word character follows.
\<close>

definition match_to_word :: "string \<Rightarrow> string option" where
  "match_to_word s =
     (if startsWith s ''to '' \<and> takeWhile is_word (drop 3 s) \<noteq> []
      then Some (takeWhile is_word (drop 3 s)) else None)"

definition match_transform_to :: "string \<Rightarrow> string option" where
  "match_transform_to s =
     (if startsWith s ''transform''
      then last_match match_to_word (takeWhile (\<lambda>c. \<not> is_line_terminator c) (drop 9 s))
      else None)"

text \<open>\<^verbatim>\<open>normalize\<close>: \<^verbatim>\<open>str.replace(/\s|_/g, '').toLowerCase()\<close>\<close>

definition normalize :: "string \<Rightarrow> string" where
  "normalize s = toLowerCase (filter (\<lambda>c. \<not> (is_space c \<or> c = CHR ''_'')) s)"

text \<open>
  The tail \<^verbatim>\<open>\s*["']?([^"']+)["']?\<close> of the \<^verbatim>\<open>where\<close> expression (\<open>min_ws = 0\<close>) and the tail
  \<^verbatim>\<open>\s+["']?([^"']+)["']?\<close> of the \<^verbatim>\<open>to\<close>, \<^verbatim>\<open>with\<close> and \<^verbatim>\<open>set\<close> expressions (\<open>min_ws = 1\<close>).
  The white space is taken greedily, then an optional quote, then the longest run of
  characters that are not quotes. If that run is empty the white space gives back its
  last character, which then is the whole capture.
\<close>

definition capture_value :: "nat \<Rightarrow> string \<Rightarrow> string option" where
  "capture_value min_ws r =
     (let n = length (takeWhile is_space r);
          rest = drop n r;
          body = (case rest of
                    [] \<Rightarrow> []
                  | c # cs \<Rightarrow> takeWhile (\<lambda>x. \<not> is_quote x) (if is_quote c then cs else rest))
      in if n < min_ws then None
         else if body \<noteq> [] then Some body
         else if min_ws < n then Some (take 1 (drop (n - 1) r))
         else None)"

text \<open>
  \<^verbatim>\<open>/where\s+(\w+)\s*(=|>|<|contains|starts with|ends with)\s*["']?([^"']+)["']?/i\<close>.
  The field \<^verbatim>\<open>(\w+)\<close> is tried from the longest run of word characters down to one
  character; at each length the operators are tried in the order written.
\<close>

definition operators :: "string list" where
  "operators = [''='', ''>'', ''<'', ''contains'', ''starts with'', ''ends with'']"

fun try_operators :: "string list \<Rightarrow> string \<Rightarrow> (string \<times> string) option" where
  "try_operators [] s = None"
| "try_operators (opr # oprs) s =
     (if startsWith s opr then
        (case capture_value 0 (drop (length opr) s) of
           Some v \<Rightarrow> Some (opr, v)
         | None \<Rightarrow> try_operators oprs s)
      else try_operators oprs s)"

fun try_field :: "nat \<Rightarrow> string \<Rightarrow> (string \<times> string \<times> string) option" where
  "try_field 0 s = None"
| "try_field (Suc n) s =
     (case try_operators operators (dropWhile is_space (drop (Suc n) s)) of
        Some (opr, v) \<Rightarrow> Some (take (Suc n) s, opr, v)
      | None \<Rightarrow> try_field n s)"

definition match_where :: "string \<Rightarrow> (string \<times> string \<times> string) option" where
  "match_where s =
     (if startsWith s ''where'' \<and> takeWhile is_space (drop 5 s) \<noteq> [] then
        let s' = dropWhile is_space (drop 5 s) in try_field (length (takeWhile is_word s')) s'
      else None)"

text \<open>\<^verbatim>\<open>/to\s+["']?([^"']+)["']?/i\<close>, and the same with \<^verbatim>\<open>with\<close> and \<^verbatim>\<open>set\<close>.\<close>

definition match_keyword_value :: "string \<Rightarrow> string \<Rightarrow> string option" where
  "match_keyword_value kw s =
     (if startsWith s kw then capture_value 1 (drop (length kw) s) else None)"

text \<open>
  \<^verbatim>\<open>lowerCommand.match(/row\s+(\d+)/gi)\<close>: all matches from left to right, the search
  resuming where the previous match ended (\<open>skip\<close> counts the characters of that match
  still to pass). Each match is then read by \<^verbatim>\<open>parseInt\<close> after its \<^verbatim>\<open>row\s+\<close> is removed.
\<close>

definition match_row :: "string \<Rightarrow> (nat \<times> string) option" where
  "match_row s =
     (let ws = takeWhile is_space (drop 3 s);
          ds = takeWhile is_digit (dropWhile is_space (drop 3 s))
      in if startsWith s ''row'' \<and> ws \<noteq> [] \<and> ds \<noteq> []
         then Some (3 + length ws + length ds, ds) else None)"

fun row_matches :: "nat \<Rightarrow> string \<Rightarrow> string list" where
  "row_matches skip [] = []"
| "row_matches skip (c # cs) =
     (if skip > 0 then row_matches (skip - 1) cs
      else (case match_row (c # cs) of
              Some (len, ds) \<Rightarrow> ds # row_matches (len - 1) cs
            | None \<Rightarrow> row_matches 0 cs))"

definition parseInt :: "string \<Rightarrow> int" where
  \<comment> \<open>on a non-empty string of decimal digits\<close>
  "parseInt ds = foldl (\<lambda>a c. 10 * a + (int (of_char c) - 48)) 0 ds"

text \<open>What \<open>parseCommand\<close> returns when it does not return \<^verbatim>\<open>null\<close>.\<close>

record parsed_command =
  p_operation :: operation
  p_field :: string
  p_condition :: string
  p_newValue :: string
  p_affectedRows :: "int list"

text \<open>The first part of \<open>parseCommand\<close>: the operation and, for a transform, its name.\<close>

definition detect_operation :: "string \<Rightarrow> operation \<times> string" where
  "detect_operation lowerCommand =
     (case first_match match_to_transform lowerCommand of
        Some name \<Rightarrow> (Transform, name)
      | None \<Rightarrow>
          if includes_str lowerCommand ''delete'' \<or> includes_str lowerCommand ''remove''
            then (Delete, [])
          else if includes_str lowerCommand ''add'' \<or> includes_str lowerCommand ''insert''
            then (Add, [])
          else if includes_str lowerCommand ''replace'' \<or> includes_str lowerCommand ''swap''
            then (Replace, [])
          else if includes_str lowerCommand ''transform'' \<or> includes_str lowerCommand ''convert''
            then (Transform,
                  (case first_match match_transform_to lowerCommand of None \<Rightarrow> [] | Some w \<Rightarrow> w))
          else (Update, []))"

definition parseCommand :: "string list \<Rightarrow> string \<Rightarrow> parsed_command option" where
  "parseCommand available cmd =
     (let lowerCommand = toLowerCase cmd;
          (opr, newValue0) = detect_operation lowerCommand;
          normalizedCommand = normalize lowerCommand;
          matchedField =
            (case find (\<lambda>f. includes_str normalizedCommand (normalize f)) available of
               None \<Rightarrow> [] | Some f \<Rightarrow> f);
          cond =
            (case first_match match_where lowerCommand of
               None \<Rightarrow> []
             | Some (f, opr', v) \<Rightarrow> f @ '' '' @ opr' @ '' '' @ v);
          newValue1 =
            (if newValue0 = [] \<and> (opr = Update \<or> opr = Replace) then
               (case first_match (match_keyword_value ''to'') lowerCommand of
                  Some v \<Rightarrow> v
                | None \<Rightarrow>
                    (case first_match (match_keyword_value ''with'') lowerCommand of
                       Some v \<Rightarrow> v
                     | None \<Rightarrow>
                         (case first_match (match_keyword_value ''set'') lowerCommand of
                            Some v \<Rightarrow> v
                          | None \<Rightarrow> [])))
             else newValue0);
          rowNumbers = map parseInt (row_matches 0 lowerCommand)
      in if matchedField = [] then None
         else Some \<lparr>p_operation = opr, p_field = matchedField, p_condition = cond,
                    p_newValue = newValue1, p_affectedRows = rowNumbers\<rparr>)"

text \<open>
  The record that \<open>processCommand\<close> makes of a parse result (preview mode off): \<open>i\<close> and
  \<open>t\<close> are the clock's reading, as text and as a number.
\<close>

definition modification_of :: "string \<Rightarrow> int \<Rightarrow> string \<Rightarrow> parsed_command \<Rightarrow> DataModification" where
  "modification_of i t cmd p =
     \<lparr>mod_id = i, command = cmd, operation = p_operation p, field = p_field p,
      condition = p_condition p, newValue = p_newValue p, affectedRows = p_affectedRows p,
      status = Pending, timestamp = t\<rparr>"

subsection \<open>The inputs of the worked examples\<close>

definition example1_table :: "row list" where
  "example1_table =
     [[(''name'', VStr ''John Doe''), (''email'', VStr ''j@x.com'')],
      [(''name'', VStr ''Jane''), (''email'', VStr ''a@x.com'')]]"

definition example1_phrase :: string where
  "example1_phrase = ''Update email field to uppercase where name contains John''"

definition example3_table :: "row list" where
  "example3_table = [[(''name'', VStr ''John Middle Doe'')]]"

definition example3_phrase :: string where
  "example3_phrase = ''Transform name field to wordcount''"

definition bad_pattern_table :: "row list" where
  "bad_pattern_table = [[(''name'', VStr ''a(b'')]]"

definition bad_pattern_phrase :: string where
  "bad_pattern_phrase = ''Replace name with x where name contains (''"

section \<open>The rule builder (processNaturalLanguage)\<close>

record Rule =
  rule_id :: string
  rule_name :: string
  rule_description :: string
  rule_field :: string
  rule_operator :: string
  rule_value :: string
  rule_action :: string
  rule_priority :: nat
  rule_isActive :: bool

text \<open>\<^verbatim>\<open>operatorMap\<close>, in the order its entries are written, which is the order of \<^verbatim>\<open>Object.entries\<close>.\<close>

definition operatorMap :: "(string \<times> string) list" where
  "operatorMap =
     [(''must be'', ''equals''),
      (''should be'', ''equals''),
      (''cannot be'', ''not_equals''),
      (''must contain'', ''contains''),
      (''cannot contain'', ''not_contains''),
      (''must start with'', ''starts_with''),
      (''must end with'', ''ends_with''),
      (''must be greater than'', ''greater_than''),
      (''must be less than'', ''less_than''),
      (''cannot be empty'', ''is_not_empty''),
      (''must be empty'', ''is_empty'')]"

text \<open>The loop over the entries: the first phrase that the input includes, else \<^verbatim>\<open>equals\<close>.\<close>

fun detect_operator :: "(string \<times> string) list \<Rightarrow> string \<Rightarrow> string" where
  "detect_operator [] input = ''equals''"
| "detect_operator ((phrase, opr) # entries) input =
     (if includes_str input phrase then opr else detect_operator entries input)"

text \<open>\<^verbatim>\<open>/"([^"]+)"/\<close>\<close>

definition match_quoted :: "string \<Rightarrow> string option" where
  "match_quoted s =
     (case s of
        [] \<Rightarrow> None
      | c # cs \<Rightarrow>
          let body = takeWhile (\<lambda>x. x \<noteq> CHR 0x22) cs in
          if c = CHR 0x22 \<and> body \<noteq> [] \<and> startsWith (drop (length body) cs) [CHR 0x22]
          then Some body else None)"

text \<open>
  \<open>processNaturalLanguage\<close> reads the text box, the fields of the table and the current
  rules, and stores the new list of rules; \<open>now k\<close> is the text of the clock when the
  \<open>k\<close>-th new rule is made.
\<close>

definition processNaturalLanguage ::
  "(nat \<Rightarrow> string) \<Rightarrow> string list \<Rightarrow> Rule list \<Rightarrow> string \<Rightarrow> Rule list" where
  "processNaturalLanguage now available rules naturalLanguageInput =
     (if trim naturalLanguageInput = [] then rules
      else
        let input = toLowerCase naturalLanguageInput;
            fieldMatches = filter (\<lambda>f. includes_str input (toLowerCase f)) available;
            detectedOperator = detect_operator operatorMap input;
            v = (case first_match match_quoted input of None \<Rightarrow> [] | Some x \<Rightarrow> x);
            newRules =
              map (\<lambda>(f, index).
                    \<lparr>rule_id = now index @ number_to_string (int index),
                     rule_name = ''Rule '' @ number_to_string (int (length rules + index + 1)),
                     rule_description = naturalLanguageInput,
                     rule_field = f,
                     rule_operator = detectedOperator,
                     rule_value = v,
                     rule_action = ''flag'',
                     rule_priority = length rules + index + 1,
                     rule_isActive = True\<rparr>)
                  (zip fieldMatches [0 ..< length fieldMatches])
        in rules @ newRules)"

section \<open>The validation panel (generateSchema, validateData)\<close>

text \<open>
  \<^verbatim>\<open>commonSchemas\<close> has five entries, each used as \<^verbatim>\<open>.optional()\<close>. Two of them call code
  outside the repository on a string: the schema library's e-mail test and \<^verbatim>\<open>Date.parse\<close>.
  Both are parameters of the model.
\<close>

datatype field_schema = Email | Phone | Date | Number | Required



















section \<open>The search panel (processQuery, searchData)\<close>

text \<open>
  \<^verbatim>\<open>/(\w+):\s*([^\s]+)/g\<close> at one position: a run of word characters, a colon, optional
  white space, and a non-empty run of characters that are not white space. The result is
  the length of the match and the pair it captures.
\<close>

definition match_filter :: "string \<Rightarrow> (nat \<times> string \<times> string) option" where
  "match_filter s =
     (let key = takeWhile is_word s;
          r = drop (length key) s;
          ws = takeWhile is_space (drop 1 r);
          v = takeWhile (\<lambda>c. \<not> is_space c) (dropWhile is_space (drop 1 r))
      in if key \<noteq> [] \<and> startsWith r '':'' \<and> v \<noteq> []
         then Some (length key + 1 + length ws + length v, key, v) else None)"

text \<open>
  The \<^verbatim>\<open>exec\<close> loop: matches from left to right, each search resuming where the previous
  match ended.
\<close>

fun filter_matches :: "nat \<Rightarrow> string \<Rightarrow> (string \<times> string) list" where
  "filter_matches skip [] = []"
| "filter_matches skip (c # cs) =
     (if skip > 0 then filter_matches (skip - 1) cs
      else (case match_filter (c # cs) of
              Some (len, key, v) \<Rightarrow> (key, v) # filter_matches (len - 1) cs
            | None \<Rightarrow> filter_matches 0 cs))"

text \<open>
  \<^verbatim>\<open>filters\<close> is a plain object, created as \<^verbatim>\<open>{}\<close>. Besides the properties stored in it,
  it has the members every plain object inherits. \<^verbatim>\<open>filters[key]\<close> reads a stored
  property if there is one, else the inherited member if \<open>key\<close> names one, else
  \<^verbatim>\<open>undefined\<close>. \<^verbatim>\<open>filters[key] = v\<close> stores a property, except under the name \<^verbatim>\<open>__proto__\<close>,
  where assigning a string does nothing and reading gives the prototype.
\<close>

definition inherited_names :: "string list" where
  "inherited_names =
     [''constructor'', ''hasOwnProperty'', ''isPrototypeOf'', ''propertyIsEnumerable'',
      ''toLocaleString'', ''toString'', ''valueOf'', ''__proto__'', ''__defineGetter__'',
      ''__defineSetter__'', ''__lookupGetter__'', ''__lookupSetter__'']"

datatype property = Missing | Own string | Inherited

definition store_filter :: "(string \<times> string) list \<Rightarrow> string \<times> string \<Rightarrow> (string \<times> string) list" where
  "store_filter fs kv =
     (case kv of (key, v) \<Rightarrow> if key = ''__proto__'' then fs else AList.update key v fs)"

definition read_filter :: "(string \<times> string) list \<Rightarrow> string \<Rightarrow> property" where
  "read_filter fs key =
     (if key = ''__proto__'' then Inherited
      else case map_of fs key of
        Some v \<Rightarrow> Own v
      | None \<Rightarrow> if key \<in> set inherited_names then Inherited else Missing)"

definition processQuery :: "string \<Rightarrow> string list \<times> (string \<times> string) list" where
  "processQuery query =
     (let ws = filter (\<lambda>w. length w > 0) (split_ws query);
          keywords = filter (\<lambda>cleanWord. length cleanWord > 2) (map (filter is_word) ws);
          filters = foldl store_filter [] (filter_matches 0 query)
      in (keywords, filters))"

text \<open>
  What the loop over a row's entries accumulates: the score, the matched fields and the
  highlight text.
\<close>

type_synonym tally = "nat \<times> string list \<times> string"

definition record_match :: "nat \<Rightarrow> bool \<Rightarrow> string \<Rightarrow> jsval \<Rightarrow> tally \<Rightarrow> tally" where
  \<comment> \<open>\<^verbatim>\<open>score += n; matchedFields.push(field)\<close>, the push unconditional or guarded by
      \<^verbatim>\<open>!matchedFields.includes(field)\<close>; \<^verbatim>\<open>highlight += `${field}: ${value} `\<close>\<close>
  "record_match n guarded f v t =
     (case t of (score, matchedFields, highlight) \<Rightarrow>
        (score + n,
         (if guarded \<and> f \<in> set matchedFields then matchedFields else matchedFields @ [f]),
         highlight @ f @ '': '' @ String v @ '' ''))"

text \<open>
  The first test of the loop body,
  \<^verbatim>\<open>filters[field] && fieldValue.includes(filters[field].toLowerCase())\<close>: a stored filter is
  a non-empty string; an inherited member is truthy and has no \<^verbatim>\<open>toLowerCase\<close>, so the call
  throws a \<^verbatim>\<open>TypeError\<close>.
\<close>

definition apply_filter ::
  "(string \<times> string) list \<Rightarrow> string \<Rightarrow> string \<Rightarrow> jsval \<Rightarrow> tally \<Rightarrow> exn + tally" where
  "apply_filter filters fieldValue f v t =
     (case read_filter filters f of
        Missing \<Rightarrow> Inr t
      | Own fv \<Rightarrow>
          Inr (if fv \<noteq> [] \<and> includes_str fieldValue (toLowerCase fv)
               then record_match 10 False f v t else t)
      | Inherited \<Rightarrow> Inl TypeError)"

definition score_entry ::
  "string \<Rightarrow> string list \<Rightarrow> (string \<times> string) list \<Rightarrow> tally \<Rightarrow> string \<times> jsval
     \<Rightarrow> exn + tally" where
  "score_entry query keywords filters t entry =
     (case entry of (f, v) \<Rightarrow>
        let fieldValue = toLowerCase (String v) in
        (case apply_filter filters fieldValue f v t of
           Inl e \<Rightarrow> Inl e
         | Inr t1 \<Rightarrow>
             (let t2 = foldl (\<lambda>a keyword.
                           if includes_str fieldValue keyword then record_match 5 True f v a else a)
                        t1 keywords
              in Inr (if fieldValue = toLowerCase query then record_match 20 True f v t2 else t2))))"

text \<open>The loop over \<^verbatim>\<open>Object.entries(row)\<close>; the first exception ends it.\<close>

fun score_entries ::
  "string \<Rightarrow> string list \<Rightarrow> (string \<times> string) list \<Rightarrow> tally \<Rightarrow> row \<Rightarrow> exn + tally" where
  "score_entries query keywords filters t [] = Inr t"
| "score_entries query keywords filters t (entry # entries) =
     (case score_entry query keywords filters t entry of
        Inl e \<Rightarrow> Inl e
      | Inr t' \<Rightarrow> score_entries query keywords filters t' entries)"

definition score_row :: "string \<Rightarrow> row \<Rightarrow> exn + tally" where
  "score_row query r =
     (case processQuery query of (keywords, filters) \<Rightarrow>
        score_entries query keywords filters (0, [], []) r)"

text \<open>The total score of a row for a query, if scoring the row does not throw.\<close>

definition total_score :: "string \<Rightarrow> row \<Rightarrow> exn + nat" where
  "total_score query r =
     (case score_row query r of Inl e \<Rightarrow> Inl e | Inr t \<Rightarrow> Inr (fst t))"

record SearchResult =
  res_rowIndex :: nat
  res_row :: row
  res_score :: nat
  res_matchedFields :: "string list"
  res_highlight :: string

definition make_result :: "row \<Rightarrow> nat \<Rightarrow> tally \<Rightarrow> SearchResult" where
  "make_result r index t =
     (case t of (score, matchedFields, highlight) \<Rightarrow>
        \<lparr>res_rowIndex = index + 1, res_row = r, res_score = score,
         res_matchedFields = matchedFields, res_highlight = trim highlight\<rparr>)"

definition result_of :: "string \<Rightarrow> row \<Rightarrow> nat \<Rightarrow> exn + SearchResult" where
  "result_of query r index =
     (case score_row query r of Inl e \<Rightarrow> Inl e | Inr t \<Rightarrow> Inr (make_result r index t))"

text \<open>
  The loop over the rows: a row with a positive score is pushed to \<^verbatim>\<open>searchResults\<close>; the
  first exception ends the loop.
\<close>

fun scan_rows :: "string \<Rightarrow> row list \<Rightarrow> nat \<Rightarrow> exn + SearchResult list" where
  "scan_rows query [] index = Inr []"
| "scan_rows query (r # rs) index =
     (case result_of query r index of
        Inl e \<Rightarrow> Inl e
      | Inr res \<Rightarrow>
          (case scan_rows query rs (Suc index) of
             Inl e \<Rightarrow> Inl e
           | Inr rest \<Rightarrow> Inr (if res_score res > 0 then res # rest else rest)))"

text \<open>
  The state \<open>searchData\<close> works on: the results shown and the error message. A blank query
  or an empty table clears the results and returns. Otherwise the error is cleared, and
  the \<^verbatim>\<open>try\<close> block scores the rows, sorts what it found
  (\<^verbatim>\<open>sort((a, b) => b.score - a.score)\<close>, a stable sort by descending score) and stores it;
  the \<^verbatim>\<open>catch\<close> stores the error message and leaves the results as they were. The host's
  \<^verbatim>\<open>onSearchResults\<close> callback is not modelled.
\<close>

record search_state =
  results :: "SearchResult list"
  error :: "string option"

definition search_failed :: string where
  "search_failed = ''Search failed. Please try again.''"

definition searchData :: "string \<Rightarrow> row list \<Rightarrow> search_state \<Rightarrow> search_state" where
  "searchData query data st =
     (if trim query = [] \<or> data = [] then st\<lparr>results := []\<rparr>
      else case scan_rows query data 0 of
        Inr searchResults \<Rightarrow>
          \<lparr>results = sort_key (\<lambda>res. - int (res_score res)) searchResults, error = None\<rparr>
      | Inl e \<Rightarrow> \<lparr>results = results st, error = Some search_failed\<rparr>)"

text \<open>
  For the proofs: the tally of a row with the exception left out, and the list that the
  loop over the rows yields when no row throws.
\<close>

definition tally_of :: "string \<Rightarrow> row \<Rightarrow> tally" where
  "tally_of query r = (case score_row query r of Inl e \<Rightarrow> (0, [], []) | Inr t \<Rightarrow> t)"

definition scored_rows :: "string \<Rightarrow> row list \<Rightarrow> nat \<Rightarrow> SearchResult list" where
  "scored_rows query data index =
     filter (\<lambda>res. res_score res > 0)
       (map (\<lambda>(r, i). make_result r i (tally_of query r))
          (zip data [index ..< index + length data]))"

text \<open>A row none of whose fields has the name of an inherited member.\<close>

definition plain_fields :: "row \<Rightarrow> bool" where
  "plain_fields r \<longleftrightarrow> (\<forall>f \<in> set (keys r). f \<notin> set inherited_names)"

definition search_sample :: "row list" where
  \<comment> \<open>a table for closed instances\<close>
  "search_sample =
     [[(''notes'', VStr ''urgent review'')], [(''notes'', VStr ''none'')],
      [(''notes'', VStr ''urgent'')], [(''notes'', VStr ''very urgent'')]]"

definition no_results :: search_state where
  \<comment> \<open>the state before the first search\<close>
  "no_results = \<lparr>results = [], error = None\<rparr>"

section \<open>applyModification on a store of objects\<close>

text \<open>
  To speak about mutation, arrays and rows are placed in a store: an object lives at an
  address, an array holds the addresses of its rows, and creating an object (an array or
  object literal, \<^verbatim>\<open>map\<close>, \<^verbatim>\<open>filter\<close>) puts it at the next free address. Nothing in
  \<open>applyModification\<close> assigns to a property or an element of an object that exists
  already, so the store has no operation that overwrites.
\<close>

type_synonym addr = nat

datatype obj = RowObj row | ArrayObj "addr list"

type_synonym store = "obj list"

definition alloc :: "obj \<Rightarrow> store \<Rightarrow> addr \<times> store" where
  "alloc ob h = (length h, h @ [ob])"

definition row_at :: "store \<Rightarrow> addr \<Rightarrow> row" where
  "row_at h a = (case at_index h a of Some (RowObj r) \<Rightarrow> r | _ \<Rightarrow> [])"

definition array_at :: "store \<Rightarrow> addr \<Rightarrow> addr list" where
  "array_at h a = (case at_index h a of Some (ArrayObj refs) \<Rightarrow> refs | _ \<Rightarrow> [])"

text \<open>The table that an array of the store denotes.\<close>

definition table_at :: "store \<Rightarrow> addr \<Rightarrow> row list" where
  "table_at h a = map (row_at h) (array_at h a)"

text \<open>
  \<^verbatim>\<open>map\<close> with one of the callbacks above: a callback that returns its argument leaves the
  address as it is, one that returns a new object has that object allocated. The store
  is returned also when the callback throws.
\<close>

fun map_rows_store ::
  "(row \<Rightarrow> nat \<Rightarrow> exn + row option) \<Rightarrow> addr list \<Rightarrow> nat \<Rightarrow> store
     \<Rightarrow> (exn + addr list) \<times> store" where
  "map_rows_store f [] index h = (Inr [], h)"
| "map_rows_store f (a # as) index h =
     (case f (row_at h a) index of
        Inl e \<Rightarrow> (Inl e, h)
      | Inr changed \<Rightarrow>
          (case (case changed of None \<Rightarrow> (a, h) | Some r' \<Rightarrow> alloc (RowObj r') h) of
             (a', h') \<Rightarrow>
               (case map_rows_store f as (Suc index) h' of
                  (Inl e, h'') \<Rightarrow> (Inl e, h'')
                | (Inr as', h'') \<Rightarrow> (Inr (a' # as'), h''))))"

fun filter_rows_store ::
  "(row \<Rightarrow> nat \<Rightarrow> exn + bool) \<Rightarrow> addr list \<Rightarrow> nat \<Rightarrow> store \<Rightarrow> exn + addr list" where
  "filter_rows_store f [] index h = Inr []"
| "filter_rows_store f (a # as) index h =
     (case f (row_at h a) index of
        Inl e \<Rightarrow> Inl e
      | Inr keep \<Rightarrow>
          (case filter_rows_store f as (Suc index) h of
             Inl e \<Rightarrow> Inl e
           | Inr as' \<Rightarrow> Inr (if keep then a # as' else as')))"

text \<open>The array that \<^verbatim>\<open>map\<close>, \<^verbatim>\<open>filter\<close> or an array literal returns is a new object.\<close>

definition new_array :: "(exn + addr list) \<times> store \<Rightarrow> (exn + addr) \<times> store" where
  "new_array res =
     (case res of
        (Inl e, h) \<Rightarrow> (Inl e, h)
      | (Inr as, h) \<Rightarrow> (case alloc (ArrayObj as) h of (a, h') \<Rightarrow> (Inr a, h')))"

text \<open>The \<^verbatim>\<open>try\<close> block, on the elements of \<^verbatim>\<open>newData\<close>.\<close>

definition apply_switch_store ::
  "runtime \<Rightarrow> string list \<Rightarrow> addr list \<Rightarrow> DataModification \<Rightarrow> store
     \<Rightarrow> (exn + addr) \<times> store" where
  "apply_switch_store rt available refs m h =
     (case operation m of
        Update \<Rightarrow> new_array (map_rows_store (update_row rt m) refs 0 h)
      | Delete \<Rightarrow> new_array (filter_rows_store (delete_keeps rt m) refs 0 h, h)
      | Add \<Rightarrow>
          (case alloc (RowObj (newRow available m)) h of
             (a, h') \<Rightarrow> new_array (Inr (refs @ [a]), h'))
      | Replace \<Rightarrow> new_array (map_rows_store (replace_row rt m) refs 0 h)
      | Transform \<Rightarrow> new_array (map_rows_store (transform_row rt m) refs 0 h))"

text \<open>
  \<open>applyModification\<close> with \<^verbatim>\<open>data\<close> given by the address of its array: the address of the
  array returned, the store afterwards, and the modification records.
\<close>

definition applyModification_store ::
  "runtime \<Rightarrow> store \<Rightarrow> addr \<Rightarrow> DataModification list \<Rightarrow> DataModification
     \<Rightarrow> addr \<times> store \<times> DataModification list" where
  "applyModification_store rt h data mods m =
     (case alloc (ArrayObj (array_at h data)) h of
        (newData, h1) \<Rightarrow>
          (case apply_switch_store rt (availableFields (table_at h data)) (array_at h1 newData) m h1 of
             (Inr result, h2) \<Rightarrow> (result, h2, mods)
           | (Inl e, h2) \<Rightarrow> (newData, h2, set_status (mod_id m) Failed mods)))"

text \<open>A store in which \<open>data\<close> is an array of rows.\<close>

definition is_table :: "store \<Rightarrow> addr \<Rightarrow> bool" where
  "is_table h data \<longleftrightarrow>
     (\<exists>refs. at_index h data = Some (ArrayObj refs)
        \<and> (\<forall>a \<in> set refs. \<exists>r. at_index h a = Some (RowObj r)))"

definition store_sample :: store where
  \<comment> \<open>two rows and, at address 2, the array of both; for closed instances\<close>
  "store_sample =
     [RowObj [(''name'', VStr ''Ann'')], RowObj [(''name'', VStr ''Bob'')], ArrayObj [0, 1]]"

section \<open>Properties of the data modifier\<close>

lemma map_rows_unselected:
  "(\<And>r i. f r i = Inr None) \<Longrightarrow> map_rows f rs index = Inr rs"
  by (induction rs arbitrary: index) simp_all

lemma filter_rows_all_kept:
  "(\<And>r i. f r i = Inr True) \<Longrightarrow> filter_rows f rs index = Inr rs"
  by (induction rs arbitrary: index) simp_all

lemma selected_nothing:
  "affectedRows m = [] \<Longrightarrow> condition m = [] \<Longrightarrow> selected rt m r i = Inr False"
  by (simp add: selected_def)

text \<open>
  Claim C2. An update, delete, replace or transform whose \<open>affectedRows\<close> is empty and
  whose condition is the empty string selects no row: \<open>applyModification\<close> returns the
  rows of the input table, in order, and marks no modification record as failed.
\<close>

theorem apply_without_selector_is_noop:
  assumes "operation m \<in> {Update, Delete, Replace, Transform}"
    and "affectedRows m = []" and "condition m = []"
  shows "applyModification rt data mods m = (data, mods)"
proof -
  have sel: "\<And>r i. selected rt m r i = Inr False"
    using assms(2,3) by (rule selected_nothing)
  have "apply_switch rt data m = Inr data"
  proof (cases "operation m")
    case Update
    have "map_rows (update_row rt m) data 0 = Inr data"
      by (rule map_rows_unselected) (simp add: update_row_def sel)
    with Update show ?thesis by (simp add: apply_switch_def)
  next
    case Delete
    have "filter_rows (delete_keeps rt m) data 0 = Inr data"
      by (rule filter_rows_all_kept) (simp add: delete_keeps_def sel)
    with Delete show ?thesis by (simp add: apply_switch_def)
  next
    case Add
    with assms(1) show ?thesis by simp
  next
    case Replace
    have "map_rows (replace_row rt m) data 0 = Inr data"
      by (rule map_rows_unselected) (simp add: replace_row_def sel)
    with Replace show ?thesis by (simp add: apply_switch_def)
  next
    case Transform
    have "map_rows (transform_row rt m) data 0 = Inr data"
      by (rule map_rows_unselected) (simp add: transform_row_def sel)
    with Transform show ?thesis by (simp add: apply_switch_def)
  qed
  then show ?thesis by (simp add: applyModification_def)
qed

theorem apply_without_selector_is_noop_witness:
  "operation (make_modification Transform ''name'' [] ''wordcount'' [])
      \<in> {Update, Delete, Replace, Transform}
   \<and> affectedRows (make_modification Transform ''name'' [] ''wordcount'' []) = []
   \<and> condition (make_modification Transform ''name'' [] ''wordcount'' []) = []
   \<and> applyModification plain_runtime [[(''name'', VStr ''John Middle Doe'')]] []
        (make_modification Transform ''name'' [] ''wordcount'' [])
      = ([[(''name'', VStr ''John Middle Doe'')]], [])"
  using apply_without_selector_is_noop
    [of "make_modification Transform ''name'' [] ''wordcount'' []" plain_runtime
        "[[(''name'', VStr ''John Middle Doe'')]]" "[]"]
  by (simp add: make_modification_def)

subsection \<open>Exceptions stay inside applyModification\<close>

lemma set_status_sets:
  assumes "md \<in> set (set_status i st mods)" and "mod_id md = i"
  shows "status md = st"
proof -
  from assms(1) obtain x where x: "x \<in> set mods"
    and md: "md = (if mod_id x = i then x\<lparr>status := st\<rparr> else x)"
    unfolding set_status_def set_map by blast
  show ?thesis
  proof (cases "mod_id x = i")
    case True
    with md show ?thesis by simp
  next
    case False
    with md assms(2) show ?thesis by simp
  qed
qed

text \<open>
  What \<open>applyModification\<close> itself does: it always returns a table and a list of records.
  When the \<^verbatim>\<open>try\<close> block throws, the table returned is the input table and every record
  with the modification's id has been set to \<open>Failed\<close>; when it does not throw, the table
  is the one the block computed and the records are untouched.
\<close>

lemma applyModification_catches:
  "(\<forall>e. apply_switch rt data m = Inl e \<longrightarrow>
        applyModification rt data mods m = (data, set_status (mod_id m) Failed mods))
   \<and> (\<forall>t. apply_switch rt data m = Inr t \<longrightarrow> applyModification rt data mods m = (t, mods))
   \<and> (\<forall>md \<in> set (set_status (mod_id m) Failed mods). mod_id md = mod_id m \<longrightarrow> status md = Failed)"
proof (intro conjI allI impI ballI)
  fix e assume "apply_switch rt data m = Inl e"
  then show "applyModification rt data mods m = (data, set_status (mod_id m) Failed mods)"
    by (simp add: applyModification_def)
next
  fix t assume "apply_switch rt data m = Inr t"
  then show "applyModification rt data mods m = (t, mods)"
    by (simp add: applyModification_def)
next
  fix md assume "md \<in> set (set_status (mod_id m) Failed mods)" and "mod_id md = mod_id m"
  then show "status md = Failed" by (rule set_status_sets)
qed

text \<open>
  What the caller makes of it: \<open>applyModification\<close> runs only inside
  \<open>applyModificationToData\<close>, which sets the status of the same record after
  \<open>applyModification\<close> has returned. So the record reads \<open>Applied\<close> whatever happened in the
  \<^verbatim>\<open>try\<close> block.
\<close>

lemma caller_marks_applied:
  assumes "applyModificationToData rt data mods m = (t, mods')"
    and "md \<in> set mods'" and "mod_id md = mod_id m"
  shows "status md = Applied"
proof -
  obtain t1 mods1 where "applyModification rt data mods m = (t1, mods1)"
    by (cases "applyModification rt data mods m")
  with assms(1) have "mods' = set_status (mod_id m) Applied mods1"
    by (simp add: applyModificationToData_def)
  with assms(2,3) show ?thesis by (simp add: set_status_sets)
qed

text \<open>
  Claim C8 at a concrete input. The phrase \<^verbatim>\<open>Replace name with x where name contains (\<close>
  is parsed as a replace whose search text is \<^verbatim>\<open>(\<close>; on a row whose name contains that
  character the \<^verbatim>\<open>try\<close> block throws a \<^verbatim>\<open>SyntaxError\<close>. No exception escapes and the input
  table comes back, and \<open>applyModification\<close> sets the record to \<open>Failed\<close>; but when the
  apply action is over the record reads \<open>Applied\<close>, not \<open>Failed\<close>.
\<close>

theorem failed_status_is_overwritten:
  "parseCommand (availableFields bad_pattern_table) bad_pattern_phrase
     = Some \<lparr>p_operation = Replace, p_field = ''name'', p_condition = ''name contains ('',
              p_newValue = ''x where name contains ('', p_affectedRows = []\<rparr>
   \<and> apply_switch plain_runtime bad_pattern_table
        (modification_of ''1'' 0 bad_pattern_phrase
           \<lparr>p_operation = Replace, p_field = ''name'', p_condition = ''name contains ('',
            p_newValue = ''x where name contains ('', p_affectedRows = []\<rparr>)
     = Inl SyntaxError
   \<and> map status (snd (applyModification plain_runtime bad_pattern_table
        [modification_of ''1'' 0 bad_pattern_phrase
           \<lparr>p_operation = Replace, p_field = ''name'', p_condition = ''name contains ('',
            p_newValue = ''x where name contains ('', p_affectedRows = []\<rparr>]
        (modification_of ''1'' 0 bad_pattern_phrase
           \<lparr>p_operation = Replace, p_field = ''name'', p_condition = ''name contains ('',
            p_newValue = ''x where name contains ('', p_affectedRows = []\<rparr>)))
     = [Failed]
   \<and> applyModificationToData plain_runtime bad_pattern_table
        [modification_of ''1'' 0 bad_pattern_phrase
           \<lparr>p_operation = Replace, p_field = ''name'', p_condition = ''name contains ('',
            p_newValue = ''x where name contains ('', p_affectedRows = []\<rparr>]
        (modification_of ''1'' 0 bad_pattern_phrase
           \<lparr>p_operation = Replace, p_field = ''name'', p_condition = ''name contains ('',
            p_newValue = ''x where name contains ('', p_affectedRows = []\<rparr>)
     = (bad_pattern_table,
        [(modification_of ''1'' 0 bad_pattern_phrase
           \<lparr>p_operation = Replace, p_field = ''name'', p_condition = ''name contains ('',
            p_newValue = ''x where name contains ('', p_affectedRows = []\<rparr>)
         \<lparr>status := Applied\<rparr>])"
  by code_simp

subsection \<open>Falsy cell values in conditions\<close>






subsection \<open>The worked examples\<close>

text \<open>
  Claim C1. The phrase \<^verbatim>\<open>Update email field to uppercase where name contains John\<close>, on the
  table whose fields are \<open>name\<close> then \<open>email\<close>, is parsed as a transform of the field
  \<open>name\<close>: \<open>name\<close> is the first field of the table that occurs in the phrase, where it
  occurs in the \<^verbatim>\<open>where\<close> clause. Applying it upper-cases the name of row 1 and leaves
  both emails as they were.
\<close>

theorem example1_uppercases_name:
  "parseCommand (availableFields example1_table) example1_phrase
     = Some \<lparr>p_operation = Transform, p_field = ''name'',
              p_condition = ''name contains john'', p_newValue = ''uppercase'',
              p_affectedRows = []\<rparr>
   \<and> applyModification rt example1_table mods
        (modification_of i t example1_phrase
           \<lparr>p_operation = Transform, p_field = ''name'',
            p_condition = ''name contains john'', p_newValue = ''uppercase'',
            p_affectedRows = []\<rparr>)
     = ([[(''name'', VStr ''JOHN DOE''), (''email'', VStr ''j@x.com'')],
         [(''name'', VStr ''Jane''), (''email'', VStr ''a@x.com'')]], mods)"
  by code_simp

text \<open>
  With the columns in the other order, \<open>email\<close> then \<open>name\<close>, the same phrase is parsed as
  a transform of \<open>email\<close> and the e-mail of row 1 is upper-cased.
\<close>

lemma example1_with_email_first:
  "parseCommand [''email'', ''name''] example1_phrase
     = Some \<lparr>p_operation = Transform, p_field = ''email'',
              p_condition = ''name contains john'', p_newValue = ''uppercase'',
              p_affectedRows = []\<rparr>
   \<and> applyModification rt
        [[(''email'', VStr ''j@x.com''), (''name'', VStr ''John Doe'')],
         [(''email'', VStr ''a@x.com''), (''name'', VStr ''Jane'')]] mods
        (modification_of i t example1_phrase
           \<lparr>p_operation = Transform, p_field = ''email'',
            p_condition = ''name contains john'', p_newValue = ''uppercase'',
            p_affectedRows = []\<rparr>)
     = ([[(''email'', VStr ''J@X.COM''), (''name'', VStr ''John Doe'')],
         [(''email'', VStr ''a@x.com''), (''name'', VStr ''Jane'')]], mods)"
  by code_simp

text \<open>
  Claim C3 at its input. The phrase \<^verbatim>\<open>Transform name field to wordcount\<close> is parsed as a
  transform of \<open>name\<close> with no condition and no row number. Every branch tests
  \<^verbatim>\<open>condition && evaluateCondition(...)\<close>, so the empty condition selects no row, although
  \<open>evaluateCondition\<close> itself answers true for it: the table comes back unchanged and the
  name is still the string, not the number 3.
\<close>

theorem example3_leaves_the_name:
  "parseCommand (availableFields example3_table) example3_phrase
     = Some \<lparr>p_operation = Transform, p_field = ''name'', p_condition = [],
              p_newValue = ''wordcount'', p_affectedRows = []\<rparr>
   \<and> applyModification rt example3_table mods
        (modification_of i t example3_phrase
           \<lparr>p_operation = Transform, p_field = ''name'', p_condition = [],
            p_newValue = ''wordcount'', p_affectedRows = []\<rparr>)
     = ([[(''name'', VStr ''John Middle Doe'')]], mods)
   \<and> evaluateCondition rt [(''name'', VStr ''John Middle Doe'')] [] = Inr True"
  by code_simp

text \<open>
  The transform itself counts the words: once row 1 is selected by number, its name
  becomes the number 3.
\<close>

lemma example3_with_row_number:
  "parseCommand (availableFields example3_table) (example3_phrase @ '' row 1'')
     = Some \<lparr>p_operation = Transform, p_field = ''name'', p_condition = [],
              p_newValue = ''wordcount'', p_affectedRows = [1]\<rparr>
   \<and> applyModification rt example3_table mods
        (modification_of i t (example3_phrase @ '' row 1'')
           \<lparr>p_operation = Transform, p_field = ''name'', p_condition = [],
            p_newValue = ''wordcount'', p_affectedRows = [1]\<rparr>)
     = ([[(''name'', VNum 3)]], mods)"
  by code_simp

text \<open>
  Claim C4 at a concrete input: a replace with no condition, aimed at row 1, builds its
  regular expression from \<^verbatim>\<open>''.split(' ')[2]\<close>, which is \<^verbatim>\<open>undefined\<close>; the empty pattern
  matches at every position, and the new text is inserted before every character and at
  the end.
\<close>

theorem replace_without_condition_inserts_everywhere:
  "applyModification rt [[(''name'', VStr ''abc'')]] mods
     (make_modification Replace ''name'' [] ''X'' [1])
   = ([[(''name'', VStr ''XaXbXcX'')]], mods)"
  by code_simp

section \<open>Properties of the rule builder\<close>

lemma startsWith_append: "startsWith s (p @ q) \<Longrightarrow> startsWith s p"
proof -
  assume "startsWith s (p @ q)"
  then have "take (length p + length q) s = p @ q" by (simp add: startsWith_def)
  then have "take (length p) (take (length p + length q) s) = take (length p) (p @ q)" by simp
  then show ?thesis by (simp add: startsWith_def min_def)
qed

lemma includes_str_append: "includes_str s (p @ q) \<Longrightarrow> includes_str s p"
proof (induction s)
  case Nil
  then show ?case by simp
next
  case (Cons c cs)
  then show ?case by (auto dest: startsWith_append)
qed

lemma includes_must_be:
  "includes_str s ''must be greater than'' \<Longrightarrow> includes_str s ''must be''"
  "includes_str s ''must be less than'' \<Longrightarrow> includes_str s ''must be''"
  "includes_str s ''must be empty'' \<Longrightarrow> includes_str s ''must be''"
  "includes_str s ''cannot be empty'' \<Longrightarrow> includes_str s ''cannot be''"
  using includes_str_append [of s "''must be''" "'' greater than''"]
    includes_str_append [of s "''must be''" "'' less than''"]
    includes_str_append [of s "''must be''" "'' empty''"]
    includes_str_append [of s "''cannot be''" "'' empty''"]
  by simp_all

text \<open>
  Four entries of the table can never be chosen, whatever the input: each of their
  phrases begins with the phrase of an earlier entry.
\<close>

lemma operators_never_detected:
  "detect_operator operatorMap input
     \<notin> {''greater_than'', ''less_than'', ''is_not_empty'', ''is_empty''}"
  using includes_must_be [of input]
  by (simp add: operatorMap_def)

text \<open>
  Claim C6 at concrete inputs: a phrase with \<^verbatim>\<open>must be greater than\<close> gives a rule whose
  operator is \<^verbatim>\<open>equals\<close>, and a phrase with \<^verbatim>\<open>cannot be empty\<close> one whose operator is
  \<^verbatim>\<open>not_equals\<close>, because \<^verbatim>\<open>must be\<close> and \<^verbatim>\<open>cannot be\<close> come first in the table.
\<close>

theorem greater_than_phrase_gives_equals:
  "map rule_operator
     (processNaturalLanguage now [''age'', ''phone''] [] ''Age must be greater than 18'')
     = [''equals'']
   \<and> map rule_field
     (processNaturalLanguage now [''age'', ''phone''] [] ''Age must be greater than 18'')
     = [''age'']
   \<and> map rule_operator
     (processNaturalLanguage now [''age'', ''phone''] [] ''Phone cannot be empty'')
     = [''not_equals'']
   \<and> map rule_field
     (processNaturalLanguage now [''age'', ''phone''] [] ''Phone cannot be empty'')
     = [''phone'']"
  by code_simp

section \<open>Properties of the validation panel\<close>









section \<open>Properties of the search panel\<close>

lemma make_result_score [simp]: "res_score (make_result r index t) = fst t"
  by (simp add: make_result_def split: prod.splits)

lemma make_result_rowIndex [simp]: "res_rowIndex (make_result r index t) = index + 1"
  by (simp add: make_result_def split: prod.splits)

text \<open>Scoring does not throw on a row whose fields have no inherited name.\<close>

lemma read_filter_plain: "f \<notin> set inherited_names \<Longrightarrow> read_filter fs f \<noteq> Inherited"
  by (auto simp: read_filter_def inherited_names_def split: option.splits)

lemma score_entry_plain:
  assumes "fst entry \<notin> set inherited_names"
  shows "\<not> isl (score_entry query keywords filters t entry)"
proof -
  obtain f v where entry: "entry = (f, v)" by (cases entry)
  with assms have "read_filter filters f \<noteq> Inherited" by (simp add: read_filter_plain)
  then have "\<not> isl (apply_filter filters (toLowerCase (String v)) f v t)"
    by (cases "read_filter filters f") (simp_all add: apply_filter_def)
  then show ?thesis
    by (cases "apply_filter filters (toLowerCase (String v)) f v t")
       (simp_all add: score_entry_def entry Let_def)
qed

lemma score_entries_plain:
  "\<forall>entry \<in> set r. fst entry \<notin> set inherited_names \<Longrightarrow>
     \<not> isl (score_entries query keywords filters t r)"
proof (induction r arbitrary: t)
  case Nil
  then show ?case by simp
next
  case (Cons entry r)
  then have "\<not> isl (score_entry query keywords filters t entry)"
    by (simp add: score_entry_plain)
  then obtain t1 where "score_entry query keywords filters t entry = Inr t1"
    by (cases "score_entry query keywords filters t entry") simp_all
  with Cons show ?case by simp
qed

lemma score_row_plain: "plain_fields r \<Longrightarrow> score_row query r = Inr (tally_of query r)"
proof -
  assume "plain_fields r"
  then have plain: "\<forall>entry \<in> set r. fst entry \<notin> set inherited_names"
    by (simp add: plain_fields_def keys_def)
  obtain kws fs where pq: "processQuery query = (kws, fs)"
    by (cases "processQuery query")
  from plain have "\<not> isl (score_entries query kws fs (0, [], []) r)"
    by (rule score_entries_plain)
  with pq have "\<not> isl (score_row query r)"
    by (simp add: score_row_def)
  then show ?thesis
    by (cases "score_row query r") (simp_all add: tally_of_def)
qed

lemma result_of_plain:
  "plain_fields r \<Longrightarrow> result_of query r index = Inr (make_result r index (tally_of query r))"
  by (simp add: result_of_def score_row_plain)

lemma total_score_plain: "plain_fields r \<Longrightarrow> total_score query r = Inr (fst (tally_of query r))"
  by (simp add: total_score_def score_row_plain)

lemma scored_rows_Cons:
  "scored_rows query (r # rs) index =
     (if 0 < fst (tally_of query r)
      then make_result r index (tally_of query r) # scored_rows query rs (Suc index)
      else scored_rows query rs (Suc index))"
proof -
  have "[index ..< index + Suc (length rs)] = index # [Suc index ..< index + Suc (length rs)]"
    by (rule upt_conv_Cons) simp
  then have "zip (r # rs) [index ..< index + length (r # rs)] =
      (r, index) # zip rs [Suc index ..< Suc index + length rs]"
    by (simp del: upt_Suc)
  then show ?thesis
    by (simp add: scored_rows_def del: upt_Suc)
qed

lemma scan_rows_plain:
  "\<forall>r \<in> set data. plain_fields r \<Longrightarrow> scan_rows query data index = Inr (scored_rows query data index)"
proof (induction data arbitrary: index)
  case Nil
  then show ?case by (simp add: scored_rows_def)
next
  case (Cons r rs)
  from Cons.prems have "plain_fields r" by simp
  then have "result_of query r index = Inr (make_result r index (tally_of query r))"
    by (rule result_of_plain)
  moreover from Cons have "scan_rows query rs (Suc index) = Inr (scored_rows query rs (Suc index))"
    by simp
  ultimately show ?case
    by (simp add: scored_rows_Cons)
qed

lemma in_set_offset:
  "(r, i) \<in> set (zip data [index ..< index + length data]) \<longleftrightarrow>
     (\<exists>j < length data. i = index + j \<and> r = data ! j)"
  by (auto simp: set_zip)

lemma set_scored_rows:
  "set (scored_rows query data 0) =
     {make_result (data ! i) i (tally_of query (data ! i)) | i.
        i < length data \<and> 0 < fst (tally_of query (data ! i))}"
proof -
  have "set (scored_rows query data 0) =
      {res. \<exists>r i. (r, i) \<in> set (zip data [0 ..< 0 + length data])
              \<and> res = make_result r i (tally_of query r) \<and> 0 < res_score res}"
    unfolding scored_rows_def by force
  also have "\<dots> = {make_result (data ! i) i (tally_of query (data ! i)) | i.
      i < length data \<and> 0 < fst (tally_of query (data ! i))}"
    unfolding in_set_offset by auto
  finally show ?thesis .
qed

lemma rowIndex_all_rows:
  "map res_rowIndex (map (\<lambda>(r, i). make_result r i (tally_of query r)) (zip data [0 ..< 0 + length data]))
     = map Suc [0 ..< length data]"
proof -
  have "map res_rowIndex (map (\<lambda>(r, i). make_result r i (tally_of query r)) (zip data [0 ..< 0 + length data]))
      = map (\<lambda>z. Suc (snd z)) (zip data [0 ..< length data])"
    by (simp add: case_prod_beta)
  also have "\<dots> = map Suc (map snd (zip data [0 ..< length data]))"
    by (simp only: map_map comp_def)
  also have "map snd (zip data [0 ..< length data]) = [0 ..< length data]"
    by (rule map_snd_zip) simp
  finally show ?thesis .
qed

lemma scored_rows_in_table_order:
  "sorted_wrt (\<lambda>a b. res_rowIndex a < res_rowIndex b) (scored_rows query data 0)"
proof -
  have "sorted_wrt (<) (map Suc [0 ..< length data])"
    by (simp add: sorted_wrt_map)
  then have "sorted_wrt (<)
      (map res_rowIndex (map (\<lambda>(r, i). make_result r i (tally_of query r))
         (zip data [0 ..< 0 + length data])))"
    by (simp only: rowIndex_all_rows)
  then have "sorted_wrt (\<lambda>a b. res_rowIndex a < res_rowIndex b)
      (map (\<lambda>(r, i). make_result r i (tally_of query r)) (zip data [0 ..< 0 + length data]))"
    by (simp only: sorted_wrt_map)
  then show ?thesis
    unfolding scored_rows_def by (rule sorted_wrt_filter)
qed

lemma sort_descending:
  "sorted_wrt (\<lambda>a b. res_score b \<le> res_score a) (sort_key (\<lambda>res. - int (res_score res)) xs)"
proof -
  have "sorted (map (\<lambda>res. - int (res_score res)) (sort_key (\<lambda>res. - int (res_score res)) xs))"
    by (rule sorted_sort_key)
  then show ?thesis
    by (simp add: sorted_map)
qed

lemma sort_keeps_ties:
  "filter (\<lambda>res. res_score res = k) (sort_key (\<lambda>res. - int (res_score res)) xs)
     = filter (\<lambda>res. res_score res = k) xs"
  using sort_key_stable [of "\<lambda>res. - int (res_score res)" "- int k" xs] by simp

text \<open>
  Claim C7, as stated, fails in two ways. For a blank query: the empty query equals the
  empty cell exactly, which scores 20, yet \<open>searchData\<close> returns before scoring anything.
  For a table with a column named like a member that plain objects inherit:
  \<^verbatim>\<open>filters[field]\<close> is that member, the call of its \<^verbatim>\<open>toLowerCase\<close> throws, and the search
  ends with the error message and stores no results.
\<close>

theorem search_counterexample:
  "total_score [] [(''notes'', VStr [])] = Inr 20
   \<and> results (searchData [] [[(''notes'', VStr [])]] no_results) = []
   \<and> searchData ''ann'' [[(''constructor'', VStr ''ann'')]] no_results
       = \<lparr>results = [], error = Some search_failed\<rparr>"
  by code_simp

text \<open>
  Claim C7, amended. Take a table in which no field has the name of a member that plain
  objects inherit. For a query that is not blank, \<open>searchData\<close> stores no error and stores
  exactly the rows whose total score is positive, each once, in descending order of
  score, rows of equal score in their table order; if no row scores, the result is empty.
  For a blank query, on any table, it stores the empty list and leaves the error as it
  was.
\<close>

theorem search_returns_scored_rows_in_order:
  "(trim query = [] \<longrightarrow> searchData query data st = st\<lparr>results := []\<rparr>)
   \<and> (trim query \<noteq> [] \<and> (\<forall>r \<in> set data. plain_fields r) \<longrightarrow>
        error (searchData query data st) = (if data = [] then error st else None)
        \<and> set (results (searchData query data st)) =
            {res. \<exists>i < length data. result_of query (data ! i) i = Inr res \<and> 0 < res_score res}
        \<and> distinct (map res_rowIndex (results (searchData query data st)))
        \<and> sorted_wrt (\<lambda>a b. res_score b \<le> res_score a) (results (searchData query data st))
        \<and> (\<forall>k. sorted_wrt (\<lambda>a b. res_rowIndex a < res_rowIndex b)
                 (filter (\<lambda>res. res_score res = k) (results (searchData query data st))))
        \<and> ((\<forall>r \<in> set data. total_score query r = Inr 0) \<longrightarrow>
              results (searchData query data st) = []))"
proof (rule conjI)
  show "trim query = [] \<longrightarrow> searchData query data st = st\<lparr>results := []\<rparr>"
    by (simp add: searchData_def)
next
  show "trim query \<noteq> [] \<and> (\<forall>r \<in> set data. plain_fields r) \<longrightarrow>
        error (searchData query data st) = (if data = [] then error st else None)
        \<and> set (results (searchData query data st)) =
            {res. \<exists>i < length data. result_of query (data ! i) i = Inr res \<and> 0 < res_score res}
        \<and> distinct (map res_rowIndex (results (searchData query data st)))
        \<and> sorted_wrt (\<lambda>a b. res_score b \<le> res_score a) (results (searchData query data st))
        \<and> (\<forall>k. sorted_wrt (\<lambda>a b. res_rowIndex a < res_rowIndex b)
                 (filter (\<lambda>res. res_score res = k) (results (searchData query data st))))
        \<and> ((\<forall>r \<in> set data. total_score query r = Inr 0) \<longrightarrow>
              results (searchData query data st) = [])"
  proof (intro impI)
    assume a: "trim query \<noteq> [] \<and> (\<forall>r \<in> set data. plain_fields r)"
    then have q: "trim query \<noteq> []" and plain: "\<forall>r \<in> set data. plain_fields r"
      by simp_all
    have scan: "scan_rows query data 0 = Inr (scored_rows query data 0)"
      using plain by (rule scan_rows_plain)
    have s: "results (searchData query data st) =
        sort_key (\<lambda>res. - int (res_score res)) (scored_rows query data 0)"
    proof (cases "data = []")
      case True
      then show ?thesis by (simp add: searchData_def scored_rows_def)
    next
      case False
      with q scan show ?thesis by (simp add: searchData_def)
    qed
    have e: "error (searchData query data st) = (if data = [] then error st else None)"
      using q scan by (simp add: searchData_def)
    have row: "\<And>i. i < length data \<Longrightarrow>
        result_of query (data ! i) i = Inr (make_result (data ! i) i (tally_of query (data ! i)))"
      using plain by (simp add: result_of_plain)
    have members: "set (results (searchData query data st)) =
        {res. \<exists>i < length data. result_of query (data ! i) i = Inr res \<and> 0 < res_score res}"
    proof -
      have "set (results (searchData query data st)) =
          {make_result (data ! i) i (tally_of query (data ! i)) | i.
             i < length data \<and> 0 < fst (tally_of query (data ! i))}"
        by (simp only: s set_sort set_scored_rows)
      also have "\<dots> = {res. \<exists>i < length data.
          result_of query (data ! i) i = Inr res \<and> 0 < res_score res}"
        (is "?A = ?B")
      proof (rule set_eqI)
        fix res
        show "res \<in> ?A \<longleftrightarrow> res \<in> ?B"
        proof
          assume "res \<in> ?A"
          then obtain i where i: "i < length data" "0 < fst (tally_of query (data ! i))"
            and res: "res = make_result (data ! i) i (tally_of query (data ! i))"
            by blast
          from row [OF i(1)] res have "result_of query (data ! i) i = Inr res" by simp
          moreover from res i(2) have "0 < res_score res" by simp
          ultimately show "res \<in> ?B" using i(1) by blast
        next
          assume "res \<in> ?B"
          then obtain i where i: "i < length data"
            and r: "result_of query (data ! i) i = Inr res" and pos: "0 < res_score res"
            by blast
          from row [OF i] r have res: "res = make_result (data ! i) i (tally_of query (data ! i))"
            by simp
          with pos have "0 < fst (tally_of query (data ! i))" by simp
          with i res show "res \<in> ?A" by blast
        qed
      qed
      finally show ?thesis .
    qed
    have "sorted_wrt (<) (map res_rowIndex (scored_rows query data 0))"
      using scored_rows_in_table_order [of query data] by (simp only: sorted_wrt_map)
    then have "distinct (map res_rowIndex (scored_rows query data 0))"
      by (simp only: strict_sorted_iff)
    then have once: "distinct (map res_rowIndex (results (searchData query data st)))"
      by (simp add: s distinct_map)
    have desc: "sorted_wrt (\<lambda>a b. res_score b \<le> res_score a) (results (searchData query data st))"
      by (simp only: s sort_descending)
    have ties: "\<forall>k. sorted_wrt (\<lambda>a b. res_rowIndex a < res_rowIndex b)
                 (filter (\<lambda>res. res_score res = k) (results (searchData query data st)))"
      by (simp only: s sort_keeps_ties) (simp add: sorted_wrt_filter scored_rows_in_table_order)
    have none: "(\<forall>r \<in> set data. total_score query r = Inr 0) \<longrightarrow>
        results (searchData query data st) = []"
    proof
      assume zero: "\<forall>r \<in> set data. total_score query r = Inr 0"
      have "\<forall>r \<in> set data. fst (tally_of query r) = 0"
      proof
        fix r assume r: "r \<in> set data"
        with plain have "total_score query r = Inr (fst (tally_of query r))"
          by (simp add: total_score_plain)
        with zero r show "fst (tally_of query r) = 0" by simp
      qed
      then have "set (scored_rows query data 0) = {}"
        unfolding set_scored_rows by auto
      then show "results (searchData query data st) = []" by (simp add: s)
    qed
    from e members once desc ties none
    show "error (searchData query data st) = (if data = [] then error st else None)
        \<and> set (results (searchData query data st)) =
            {res. \<exists>i < length data. result_of query (data ! i) i = Inr res \<and> 0 < res_score res}
        \<and> distinct (map res_rowIndex (results (searchData query data st)))
        \<and> sorted_wrt (\<lambda>a b. res_score b \<le> res_score a) (results (searchData query data st))
        \<and> (\<forall>k. sorted_wrt (\<lambda>a b. res_rowIndex a < res_rowIndex b)
                 (filter (\<lambda>res. res_score res = k) (results (searchData query data st))))
        \<and> ((\<forall>r \<in> set data. total_score query r = Inr 0) \<longrightarrow>
              results (searchData query data st) = [])"
      by blast
  qed
qed

theorem search_returns_scored_rows_in_order_witness:
  "trim ''urgent'' \<noteq> []
   \<and> map res_rowIndex (results (searchData ''urgent'' search_sample no_results)) = [3, 1, 4]
   \<and> map res_score (results (searchData ''urgent'' search_sample no_results)) = [25, 5, 5]
   \<and> error (searchData ''urgent'' search_sample no_results) = None
   \<and> sorted_wrt (\<lambda>a b. res_score b \<le> res_score a)
        (results (searchData ''urgent'' search_sample no_results))
   \<and> distinct (map res_rowIndex (results (searchData ''urgent'' search_sample no_results)))
   \<and> trim ''  '' = []
   \<and> searchData ''  '' search_sample no_results = no_results\<lparr>results := []\<rparr>"
proof -
  have q: "trim ''urgent'' \<noteq> []" and b: "trim ''  '' = []"
    by code_simp+
  have p: "\<forall>r \<in> set search_sample. plain_fields r"
    by code_simp
  have ne: "search_sample \<noteq> []"
    by (simp add: search_sample_def)
  have ev: "map res_rowIndex (results (searchData ''urgent'' search_sample no_results)) = [3, 1, 4]
      \<and> map res_score (results (searchData ''urgent'' search_sample no_results)) = [25, 5, 5]"
    by code_simp
  from search_returns_scored_rows_in_order [of "''urgent''" search_sample no_results] q p ne
  have ord: "error (searchData ''urgent'' search_sample no_results) = None
      \<and> sorted_wrt (\<lambda>a b. res_score b \<le> res_score a)
          (results (searchData ''urgent'' search_sample no_results))
      \<and> distinct (map res_rowIndex (results (searchData ''urgent'' search_sample no_results)))"
    by simp
  from search_returns_scored_rows_in_order [of "''  ''" search_sample no_results] b
  have "searchData ''  '' search_sample no_results = no_results\<lparr>results := []\<rparr>"
    by blast
  with q b ev ord show ?thesis by blast
qed

section \<open>applyModification does not write to the objects it is given\<close>

lemma at_index_append: "a < length h \<Longrightarrow> at_index (h @ ys) a = at_index h a"
  by (simp add: at_index_def nth_append)

lemma at_index_Some_append: "at_index h a = Some ob \<Longrightarrow> at_index (h @ ys) a = Some ob"
  by (simp add: at_index_def nth_append split: if_splits)

lemma at_index_alloc: "at_index (h @ ob # ys) (length h) = Some ob"
  by (simp add: at_index_def)

lemma row_at_append: "at_index h a = Some (RowObj r) \<Longrightarrow> row_at (h @ ys) a = r"
  by (simp add: row_at_def at_index_Some_append)

lemma row_at_grow: "\<exists>r. at_index h a = Some (RowObj r) \<Longrightarrow> row_at (h @ ys) a = row_at h a"
  by (auto simp: row_at_def at_index_Some_append)

lemma map_rows_store_grows:
  "map_rows_store f as index h = (res, h') \<Longrightarrow> \<exists>ys. h' = h @ ys"
proof (induction as arbitrary: index h res h')
  case Nil
  then show ?case by simp
next
  case (Cons a as)
  show ?case
  proof (cases "f (row_at h a) index")
    case (Inl e)
    with Cons.prems show ?thesis by simp
  next
    case (Inr changed)
    obtain a1 h1 where step: "(case changed of None \<Rightarrow> (a, h) | Some r' \<Rightarrow> alloc (RowObj r') h) = (a1, h1)"
      by (cases "case changed of None \<Rightarrow> (a, h) | Some r' \<Rightarrow> alloc (RowObj r') h")
    then have h1: "\<exists>ys. h1 = h @ ys"
      by (cases changed) (auto simp: alloc_def)
    obtain res2 h2 where rec: "map_rows_store f as (Suc index) h1 = (res2, h2)"
      by (cases "map_rows_store f as (Suc index) h1")
    from Cons.IH [OF rec] h1 have h2: "\<exists>ys. h2 = h @ ys" by auto
    from Cons.prems Inr step rec have "h' = h2"
      by (cases res2) simp_all
    with h2 show ?thesis by simp
  qed
qed

lemma map_rows_store_addresses:
  "map_rows_store f as index h = (Inr as', h') \<Longrightarrow>
     \<forall>a' \<in> set as'. a' \<in> set as \<or> (length h \<le> a' \<and> (\<exists>r. at_index h' a' = Some (RowObj r)))"
proof (induction as arbitrary: index h as' h')
  case Nil
  then show ?case by simp
next
  case (Cons a as)
  show ?case
  proof (cases "f (row_at h a) index")
    case (Inl e)
    with Cons.prems show ?thesis by simp
  next
    case (Inr changed)
    obtain a1 h1 where step: "(case changed of None \<Rightarrow> (a, h) | Some r' \<Rightarrow> alloc (RowObj r') h) = (a1, h1)"
      by (cases "case changed of None \<Rightarrow> (a, h) | Some r' \<Rightarrow> alloc (RowObj r') h")
    obtain res2 h2 where rec: "map_rows_store f as (Suc index) h1 = (res2, h2)"
      by (cases "map_rows_store f as (Suc index) h1")
    from Cons.prems Inr step rec obtain as2 where res2: "res2 = Inr as2"
      and as': "as' = a1 # as2" and h': "h' = h2"
      by (cases res2) auto
    from map_rows_store_grows [OF rec] obtain ys where ys: "h2 = h1 @ ys" by blast
    from step have first: "(a1 = a \<and> h1 = h) \<or> (\<exists>r. a1 = length h \<and> h1 = h @ [RowObj r])"
      by (cases changed) (auto simp: alloc_def)
    then have a1: "a1 = a \<or> (length h \<le> a1 \<and> (\<exists>r. at_index h2 a1 = Some (RowObj r)))"
      using ys by (auto simp: at_index_alloc at_index_Some_append)
    from first have len: "length h \<le> length h1" by auto
    from Cons.IH [OF rec [unfolded res2]]
    have "\<forall>a' \<in> set as2. a' \<in> set as \<or> (length h1 \<le> a' \<and> (\<exists>r. at_index h2 a' = Some (RowObj r)))" .
    with len have "\<forall>a' \<in> set as2. a' \<in> set as \<or> (length h \<le> a' \<and> (\<exists>r. at_index h2 a' = Some (RowObj r)))"
      by (meson le_trans)
    with a1 as' h' show ?thesis by auto
  qed
qed

lemma map_rows_store_agrees:
  assumes "\<forall>a \<in> set as. \<exists>r. at_index h a = Some (RowObj r)"
    and "map_rows_store f as index h = (res, h')"
  shows "map_rows f (map (row_at h) as) index =
           (case res of Inl e \<Rightarrow> Inl e | Inr as' \<Rightarrow> Inr (map (row_at h') as'))"
  using assms
proof (induction as arbitrary: index h res h')
  case Nil
  then show ?case by auto
next
  case (Cons a as)
  show ?case
  proof (cases "f (row_at h a) index")
    case (Inl e)
    with Cons.prems show ?thesis by auto
  next
    case (Inr changed)
    obtain a1 h1 where step: "(case changed of None \<Rightarrow> (a, h) | Some r' \<Rightarrow> alloc (RowObj r') h) = (a1, h1)"
      by (cases "case changed of None \<Rightarrow> (a, h) | Some r' \<Rightarrow> alloc (RowObj r') h")
    obtain res2 h2 where rec: "map_rows_store f as (Suc index) h1 = (res2, h2)"
      by (cases "map_rows_store f as (Suc index) h1")
    from step obtain xs where xs: "h1 = h @ xs"
      by (cases changed) (auto simp: alloc_def)
    from map_rows_store_grows [OF rec] obtain ys where ys: "h2 = h1 @ ys" by blast
    from Cons.prems(1) have valid: "\<forall>a \<in> set as. \<exists>r. at_index h1 a = Some (RowObj r)"
      by (auto simp: xs at_index_Some_append)
    from Cons.prems(1) have "\<forall>a \<in> set as. row_at h1 a = row_at h a"
      by (simp add: xs row_at_grow)
    then have same: "map (row_at h1) as = map (row_at h) as"
      by simp
    have new: "row_at h2 a1 = (case changed of None \<Rightarrow> row_at h a | Some r' \<Rightarrow> r')"
    proof (cases changed)
      case None
      with step have "a1 = a" and "h1 = h" by simp_all
      moreover from Cons.prems(1) obtain r where "at_index h a = Some (RowObj r)" by auto
      ultimately show ?thesis using None ys by (simp add: row_at_grow)
    next
      case (Some r')
      with step have "a1 = length h" and "h1 = h @ [RowObj r']" by (simp_all add: alloc_def)
      then have "at_index h1 a1 = Some (RowObj r')" by (simp add: at_index_alloc)
      then show ?thesis using Some ys by (simp add: row_at_append)
    qed
    from Cons.IH [OF valid rec]
    have ih: "map_rows f (map (row_at h) as) (Suc index) =
        (case res2 of Inl e \<Rightarrow> Inl e | Inr as' \<Rightarrow> Inr (map (row_at h2) as'))"
      by (simp only: same)
    show ?thesis
    proof (cases res2)
      case (Inl e)
      with Cons.prems(2) Inr step rec ih show ?thesis by auto
    next
      case (Inr as2)
      with Cons.prems(2) \<open>f (row_at h a) index = Inr changed\<close> step rec
      have "res = Inr (a1 # as2)" and "h' = h2" by auto
      with ih Inr \<open>f (row_at h a) index = Inr changed\<close> new show ?thesis by simp
    qed
  qed
qed

lemma filter_rows_store_agrees:
  "filter_rows f (map (row_at h) as) index =
     (case filter_rows_store f as index h of Inl e \<Rightarrow> Inl e | Inr as' \<Rightarrow> Inr (map (row_at h) as'))"
  by (induction as arbitrary: index) (auto split: sum.splits)

lemma filter_rows_store_addresses:
  "filter_rows_store f as index h = Inr as' \<Longrightarrow> set as' \<subseteq> set as"
proof (induction as arbitrary: index as')
  case Nil
  then show ?case by simp
next
  case (Cons a as)
  from Cons.prems obtain keep as2 where "filter_rows_store f as (Suc index) h = Inr as2"
    and as': "as' = (if keep then a # as2 else as2)"
    by (auto split: sum.splits)
  from Cons.IH [OF this(1)] as' show ?case by auto
qed

lemma new_array_cases:
  assumes "new_array (res, h1) = (r, h2)"
  shows "(\<exists>e. res = Inl e \<and> r = Inl e \<and> h2 = h1)
       \<or> (\<exists>as. res = Inr as \<and> r = Inr (length h1) \<and> h2 = h1 @ [ArrayObj as])"
  using assms by (cases res) (auto simp: new_array_def alloc_def)

lemma table_at_new_array: "table_at (h1 @ [ArrayObj as]) (length h1) = map (row_at (h1 @ [ArrayObj as])) as"
  by (simp add: table_at_def array_at_def at_index_alloc)

text \<open>The \<^verbatim>\<open>map\<close> branches: update, replace and transform.\<close>

lemma mapped_branch:
  assumes valid: "\<forall>a \<in> set refs. \<exists>r. at_index h a = Some (RowObj r)"
    and run: "new_array (map_rows_store f refs 0 h) = (r, h2)"
  shows "(\<exists>ys. h2 = h @ ys)
       \<and> (case r of
            Inl e \<Rightarrow> map_rows f (map (row_at h) refs) 0 = Inl e
          | Inr result \<Rightarrow>
              length h \<le> result
              \<and> map_rows f (map (row_at h) refs) 0 = Inr (table_at h2 result)
              \<and> (\<exists>refs'. at_index h2 result = Some (ArrayObj refs')
                    \<and> (\<forall>a \<in> set refs'. a \<in> set refs \<or> length h \<le> a)))"
proof -
  obtain res h1 where m: "map_rows_store f refs 0 h = (res, h1)"
    by (cases "map_rows_store f refs 0 h")
  from map_rows_store_grows [OF m] obtain xs where xs: "h1 = h @ xs" by blast
  note agree = map_rows_store_agrees [OF valid m]
  from run m new_array_cases [of res h1 r h2]
  consider (thrown) e where "res = Inl e" "r = Inl e" "h2 = h1"
    | (returned) as where "res = Inr as" "r = Inr (length h1)" "h2 = h1 @ [ArrayObj as]"
    by auto
  then show ?thesis
  proof cases
    case thrown
    with agree xs show ?thesis by simp
  next
    case returned
    from map_rows_store_addresses [OF m [unfolded returned(1)]]
    have addrs: "\<forall>a \<in> set as. a \<in> set refs \<or> length h \<le> a"
      and rows: "\<forall>a \<in> set as. a \<in> set refs \<or> (\<exists>r. at_index h1 a = Some (RowObj r))"
      by blast+
    from valid have "\<forall>a \<in> set refs. \<exists>r. at_index h1 a = Some (RowObj r)"
      by (auto simp: xs at_index_Some_append)
    with rows have "\<forall>a \<in> set as. \<exists>r. at_index h1 a = Some (RowObj r)" by blast
    then have "\<forall>a \<in> set as. row_at (h1 @ [ArrayObj as]) a = row_at h1 a"
      by (simp add: row_at_grow)
    then have "table_at h2 (length h1) = map (row_at h1) as"
      by (simp add: returned(3) table_at_new_array)
    moreover have "at_index h2 (length h1) = Some (ArrayObj as)"
      by (simp add: returned(3) at_index_alloc)
    moreover have "length h \<le> length h1" by (simp add: xs)
    ultimately show ?thesis
      using agree returned addrs xs by auto
  qed
qed

lemma filtered_branch:
  assumes valid: "\<forall>a \<in> set refs. \<exists>r. at_index h a = Some (RowObj r)"
    and run: "new_array (filter_rows_store f refs 0 h, h) = (r, h2)"
  shows "(\<exists>ys. h2 = h @ ys)
       \<and> (case r of
            Inl e \<Rightarrow> filter_rows f (map (row_at h) refs) 0 = Inl e
          | Inr result \<Rightarrow>
              length h \<le> result
              \<and> filter_rows f (map (row_at h) refs) 0 = Inr (table_at h2 result)
              \<and> (\<exists>refs'. at_index h2 result = Some (ArrayObj refs')
                    \<and> (\<forall>a \<in> set refs'. a \<in> set refs \<or> length h \<le> a)))"
proof -
  note agree = filter_rows_store_agrees [of f h refs 0]
  from run new_array_cases [of "filter_rows_store f refs 0 h" h r h2]
  consider (thrown) e where "filter_rows_store f refs 0 h = Inl e" "r = Inl e" "h2 = h"
    | (returned) as where "filter_rows_store f refs 0 h = Inr as" "r = Inr (length h)"
        "h2 = h @ [ArrayObj as]"
    by auto
  then show ?thesis
  proof cases
    case thrown
    with agree show ?thesis by simp
  next
    case returned
    from filter_rows_store_addresses [OF returned(1)] have sub: "set as \<subseteq> set refs" .
    with valid have "\<forall>a \<in> set as. row_at (h @ [ArrayObj as]) a = row_at h a"
      by (auto simp: row_at_grow)
    then have "table_at h2 (length h) = map (row_at h) as"
      by (simp add: returned(3) table_at_new_array)
    moreover have "at_index h2 (length h) = Some (ArrayObj as)"
      by (simp add: returned(3) at_index_alloc)
    ultimately show ?thesis
      using agree returned sub by auto
  qed
qed

lemma added_branch:
  assumes valid: "\<forall>a \<in> set refs. \<exists>r. at_index h a = Some (RowObj r)"
    and run: "(case alloc (RowObj nr) h of (a, h') \<Rightarrow> new_array (Inr (refs @ [a]), h')) = (r, h2)"
  shows "h2 = h @ [RowObj nr, ArrayObj (refs @ [length h])]
       \<and> r = Inr (Suc (length h))
       \<and> table_at h2 (Suc (length h)) = map (row_at h) refs @ [nr]"
proof -
  from run have h2: "h2 = h @ [RowObj nr, ArrayObj (refs @ [length h])]"
    and r: "r = Inr (Suc (length h))"
    by (simp_all add: alloc_def new_array_def)
  have arr: "array_at h2 (Suc (length h)) = refs @ [length h]"
    by (simp add: h2 array_at_def at_index_def nth_append)
  from valid have old: "\<forall>a \<in> set refs. row_at h2 a = row_at h a"
    by (simp add: h2 row_at_grow)
  have "row_at h2 (length h) = nr"
    by (simp add: h2 row_at_def at_index_alloc)
  with arr old have "table_at h2 (Suc (length h)) = map (row_at h) refs @ [nr]"
    by (simp add: table_at_def)
  with h2 r show ?thesis by simp
qed

lemma apply_switch_store_agrees:
  assumes valid: "\<forall>a \<in> set refs. \<exists>r. at_index h a = Some (RowObj r)"
    and run: "apply_switch_store rt (availableFields (map (row_at h) refs)) refs m h = (r, h2)"
  shows "(\<exists>ys. h2 = h @ ys)
       \<and> (case r of
            Inl e \<Rightarrow> apply_switch rt (map (row_at h) refs) m = Inl e
          | Inr result \<Rightarrow>
              length h \<le> result
              \<and> apply_switch rt (map (row_at h) refs) m = Inr (table_at h2 result)
              \<and> (\<exists>refs'. at_index h2 result = Some (ArrayObj refs')
                    \<and> (\<forall>a \<in> set refs'. a \<in> set refs \<or> length h \<le> a)))"
proof (cases "operation m")
  case Update
  with run have "new_array (map_rows_store (update_row rt m) refs 0 h) = (r, h2)"
    by (simp add: apply_switch_store_def)
  from mapped_branch [OF valid this] Update show ?thesis
    by (simp add: apply_switch_def split: sum.splits)
next
  case Delete
  with run have "new_array (filter_rows_store (delete_keeps rt m) refs 0 h, h) = (r, h2)"
    by (simp add: apply_switch_store_def)
  from filtered_branch [OF valid this] Delete show ?thesis
    by (simp add: apply_switch_def split: sum.splits)
next
  case Add
  let ?nr = "newRow (availableFields (map (row_at h) refs)) m"
  from run Add
  have "(case alloc (RowObj ?nr) h of (a, h') \<Rightarrow> new_array (Inr (refs @ [a]), h')) = (r, h2)"
    by (simp add: apply_switch_store_def)
  from added_branch [OF valid this]
  have h2: "h2 = h @ [RowObj ?nr, ArrayObj (refs @ [length h])]"
    and r: "r = Inr (Suc (length h))"
    and t: "table_at h2 (Suc (length h)) = map (row_at h) refs @ [?nr]"
    by blast+
  have "at_index h2 (Suc (length h)) = Some (ArrayObj (refs @ [length h]))"
    by (simp add: h2 at_index_def nth_append)
  with h2 r t Add show ?thesis
    by (simp add: apply_switch_def)
next
  case Replace
  with run have "new_array (map_rows_store (replace_row rt m) refs 0 h) = (r, h2)"
    by (simp add: apply_switch_store_def)
  from mapped_branch [OF valid this] Replace show ?thesis
    by (simp add: apply_switch_def split: sum.splits)
next
  case Transform
  with run have "new_array (map_rows_store (transform_row rt m) refs 0 h) = (r, h2)"
    by (simp add: apply_switch_store_def)
  from mapped_branch [OF valid this] Transform show ?thesis
    by (simp add: apply_switch_def split: sum.splits)
qed

text \<open>
  Claim C9. Let \<open>data\<close> be an array of rows in the store. After \<open>applyModification\<close>
  every object that existed before is as it was, so the input array holds the same rows
  and each of them the same fields and values. The array returned is a new object. Each
  of its elements is a new object or one of the input rows, unchanged; so a row that
  differs from the input is a new object. The table it denotes and the records are those
  of the value-level \<open>applyModification\<close>.
\<close>

theorem applyModification_leaves_input_untouched:
  assumes "is_table h data"
    and "applyModification_store rt h data mods m = (result, h', mods')"
  shows "(\<forall>a < length h. at_index h' a = at_index h a)
       \<and> table_at h' data = table_at h data
       \<and> length h \<le> result
       \<and> (\<exists>refs'. at_index h' result = Some (ArrayObj refs')
            \<and> (\<forall>a \<in> set refs'.
                  length h \<le> a \<or> (a \<in> set (array_at h data) \<and> row_at h' a = row_at h a)))
       \<and> (table_at h' result, mods') = applyModification rt (table_at h data) mods m"
proof -
  from assms(1) obtain refs where arr: "at_index h data = Some (ArrayObj refs)"
    and valid: "\<forall>a \<in> set refs. \<exists>r. at_index h a = Some (RowObj r)"
    unfolding is_table_def by blast
  let ?h1 = "h @ [ArrayObj refs]"
  have refs: "array_at h data = refs" by (simp add: array_at_def arr)
  have table: "table_at h data = map (row_at h) refs" by (simp add: table_at_def refs)
  have valid1: "\<forall>a \<in> set refs. \<exists>r. at_index ?h1 a = Some (RowObj r)"
    using valid by (auto simp: at_index_Some_append)
  have rows1: "map (row_at ?h1) refs = map (row_at h) refs"
    using valid by (simp add: row_at_grow)
  have new: "array_at ?h1 (length h) = refs" by (simp add: array_at_def at_index_alloc)
  obtain r h2 where sw:
    "apply_switch_store rt (availableFields (map (row_at ?h1) refs)) refs m ?h1 = (r, h2)"
    by (cases "apply_switch_store rt (availableFields (map (row_at ?h1) refs)) refs m ?h1")
  from apply_switch_store_agrees [OF valid1 sw] obtain ys where h2: "h2 = ?h1 @ ys"
    and res: "case r of
            Inl e \<Rightarrow> apply_switch rt (map (row_at h) refs) m = Inl e
          | Inr result \<Rightarrow>
              length ?h1 \<le> result
              \<and> apply_switch rt (map (row_at h) refs) m = Inr (table_at h2 result)
              \<and> (\<exists>refs'. at_index h2 result = Some (ArrayObj refs')
                    \<and> (\<forall>a \<in> set refs'. a \<in> set refs \<or> length ?h1 \<le> a))"
    unfolding rows1 by blast
  have grow: "h2 = h @ ArrayObj refs # ys" by (simp add: h2)
  have old: "\<forall>a < length h. at_index h2 a = at_index h a"
    by (simp add: grow at_index_append)
  have old_rows: "\<forall>a \<in> set refs. row_at h2 a = row_at h a"
    using valid by (simp add: grow row_at_grow)
  from arr have "data < length h" by (simp add: at_index_def split: if_splits)
  with old refs have "array_at h2 data = refs" by (simp add: array_at_def)
  with old_rows table have same_table: "table_at h2 data = table_at h data"
    by (simp add: table_at_def)
  from assms(2) sw have out: "(result, h', mods') =
      (case r of Inr res \<Rightarrow> (res, h2, mods)
       | Inl e \<Rightarrow> (length h, h2, set_status (mod_id m) Failed mods))"
    by (simp add: applyModification_store_def alloc_def refs new table rows1 split: sum.splits)
  show ?thesis
  proof (cases r)
    case (Inl e)
    with out have eq: "result = length h" "h' = h2" "mods' = set_status (mod_id m) Failed mods"
      by simp_all
    have here: "at_index h2 (length h) = Some (ArrayObj refs)"
      by (simp add: grow at_index_alloc)
    then have "table_at h2 (length h) = map (row_at h) refs"
      using old_rows by (simp add: table_at_def array_at_def)
    moreover from res Inl have "apply_switch rt (map (row_at h) refs) m = Inl e" by simp
    ultimately have "(table_at h' result, mods') = applyModification rt (table_at h data) mods m"
      by (simp add: eq table applyModification_def)
    with old same_table here old_rows refs eq show ?thesis by auto
  next
    case (Inr res0)
    with out have eq: "result = res0" "h' = h2" "mods' = mods" by simp_all
    from res Inr obtain refs' where fresh: "length ?h1 \<le> res0"
      and pure: "apply_switch rt (map (row_at h) refs) m = Inr (table_at h2 res0)"
      and here: "at_index h2 res0 = Some (ArrayObj refs')"
      and elems: "\<forall>a \<in> set refs'. a \<in> set refs \<or> length ?h1 \<le> a"
      by auto
    from pure have "(table_at h' result, mods') = applyModification rt (table_at h data) mods m"
      by (simp add: eq table applyModification_def)
    moreover from elems old_rows
    have "\<forall>a \<in> set refs'. length h \<le> a \<or> (a \<in> set refs \<and> row_at h2 a = row_at h a)"
      by auto
    moreover from fresh have "length h \<le> res0" by simp
    ultimately show ?thesis
      using old same_table here refs eq by auto
  qed
qed

theorem applyModification_leaves_input_untouched_witness:
  "is_table store_sample 2
   \<and> applyModification_store plain_runtime store_sample 2 []
        (make_modification Update ''name'' [] ''x'' [2])
      = (5, store_sample @ [ArrayObj [0, 1], RowObj [(''name'', VStr ''x'')], ArrayObj [0, 4]], [])
   \<and> table_at (store_sample @ [ArrayObj [0, 1], RowObj [(''name'', VStr ''x'')], ArrayObj [0, 4]]) 2
      = table_at store_sample 2
   \<and> length store_sample \<le> 5
   \<and> (table_at (store_sample @ [ArrayObj [0, 1], RowObj [(''name'', VStr ''x'')], ArrayObj [0, 4]]) 5,
       [])
      = applyModification plain_runtime (table_at store_sample 2) []
          (make_modification Update ''name'' [] ''x'' [2])"
proof -
  have t: "is_table store_sample 2"
    by (simp add: is_table_def store_sample_def at_index_def)
  have run: "applyModification_store plain_runtime store_sample 2 []
        (make_modification Update ''name'' [] ''x'' [2])
      = (5, store_sample @ [ArrayObj [0, 1], RowObj [(''name'', VStr ''x'')], ArrayObj [0, 4]], [])"
    by code_simp
  from applyModification_leaves_input_untouched [OF t run] t run
  show ?thesis by blast
qed

end
